theory Spec2Isabelle
  imports Complex_Main "HOL-Library.Log_Nat"
begin

section \<open>The store: the two SQLite tables of models/database.js\<close>

text \<open>
  \<^verbatim>\<open>products (id INTEGER PRIMARY KEY AUTOINCREMENT, name TEXT NOT NULL, emoji TEXT NOT NULL,
            price REAL NOT NULL, description TEXT, category TEXT)\<close>
  \<^verbatim>\<open>cart (id INTEGER PRIMARY KEY AUTOINCREMENT, product_id INTEGER NOT NULL,
        quantity INTEGER NOT NULL, FOREIGN KEY (product_id) REFERENCES products(id))\<close>

  A row is a record. Integer columns and the integers of a JSON request body are
  mathematical integers (the model is exact as long as the values stay inside the
  range in which JavaScript numbers and SQLite integers agree, below \<open>2 ^ 53\<close> in
  absolute value). A \<open>REAL\<close> price is stored as a binary64 number and written in a
  JSON response as the shortest decimal literal that reads back as that number (the
  \<open>1299.99\<close> of the seed data comes back as \<open>1299.99\<close>); the model keeps a price as
  the value of that literal, a rational, and the clients below turn it into the
  number they compute with. The nullable \<open>TEXT\<close> columns are options.
\<close>

record product =
  p_id :: int
  p_name :: string
  p_emoji :: string
  p_price :: rat
  p_description :: "string option"
  p_category :: "string option"

record cart_row =
  c_id :: int
  c_product_id :: int
  c_quantity :: int

text \<open>
  The database: both tables in rowid order, and the entry of \<open>sqlite_sequence\<close> for
  the cart table (the largest rowid the table has ever held), which
  \<open>AUTOINCREMENT\<close> maintains. The connection is opened with
  \<^verbatim>\<open>new sqlite3.Database(...)\<close> and no \<^verbatim>\<open>PRAGMA foreign_keys = ON\<close> is ever run,
  so SQLite parses the foreign key of the cart table and does not enforce it: no
  statement below consults the products table before it writes a cart row.
\<close>

record db =
  products :: "product list"
  cart :: "cart_row list"
  cart_seq :: int

subsection \<open>The statements the cart routes run\<close>

text \<open>\<^verbatim>\<open>db.get('SELECT * FROM cart WHERE product_id = ?', [product_id], ...)\<close>:
  the first matching row, or \<open>undefined\<close> (here \<open>None\<close>).\<close>

definition select_cart_by_product :: "db \<Rightarrow> int \<Rightarrow> cart_row option" where
  "select_cart_by_product d product_id =
     find (\<lambda>r. c_product_id r = product_id) (cart d)"

text \<open>\<^verbatim>\<open>UPDATE cart SET quantity = quantity + ? WHERE product_id = ?\<close>\<close>

definition update_cart_increment :: "db \<Rightarrow> int \<Rightarrow> int \<Rightarrow> db" where
  "update_cart_increment d quantity product_id =
     d\<lparr>cart := map (\<lambda>r. if c_product_id r = product_id
                           then r\<lparr>c_quantity := c_quantity r + quantity\<rparr> else r) (cart d)\<rparr>"

text \<open>
  The rowid an \<open>AUTOINCREMENT\<close> table gives to a new row: one more than the largest
  rowid in the table (1 for an empty table), and at least one more than the recorded
  sequence value. The rowids of this table are all assigned this way, so they are
  positive and the maximum may start from 0.
\<close>

definition max_rowid :: "cart_row list \<Rightarrow> int" where
  "max_rowid rows = foldr (\<lambda>r m. max (c_id r) m) rows 0"

definition next_rowid :: "db \<Rightarrow> int" where
  "next_rowid d = max (max_rowid (cart d)) (cart_seq d) + 1"

text \<open>\<^verbatim>\<open>INSERT INTO cart (product_id, quantity) VALUES (?, ?)\<close>; the second component is
  \<^verbatim>\<open>this.lastID\<close>.\<close>

definition insert_cart :: "db \<Rightarrow> int \<Rightarrow> int \<Rightarrow> db \<times> int" where
  "insert_cart d product_id quantity =
     (let lastID = next_rowid d
      in (d\<lparr>cart := cart d @ [\<lparr>c_id = lastID, c_product_id = product_id,
                                 c_quantity = quantity\<rparr>],
            cart_seq := lastID\<rparr>, lastID))"

text \<open>\<^verbatim>\<open>UPDATE cart SET quantity = ? WHERE id = ?\<close>\<close>

definition update_cart_quantity :: "db \<Rightarrow> int \<Rightarrow> int \<Rightarrow> db" where
  "update_cart_quantity d quantity line_id =
     d\<lparr>cart := map (\<lambda>r. if c_id r = line_id then r\<lparr>c_quantity := quantity\<rparr> else r) (cart d)\<rparr>"

text \<open>\<^verbatim>\<open>DELETE FROM cart WHERE id = ?\<close>\<close>

definition delete_cart :: "db \<Rightarrow> int \<Rightarrow> db" where
  "delete_cart d line_id = d\<lparr>cart := filter (\<lambda>r. c_id r \<noteq> line_id) (cart d)\<rparr>"

text \<open>
  \<^verbatim>\<open>SELECT c.id, c.quantity, p.* FROM cart c JOIN products p ON c.product_id = p.id\<close>

  An inner join: one result row for each pair of a cart row and a product with the
  same id, the cart rows in rowid order. The driver turns a result row into an object
  keyed by column name, assigning the columns from left to right; the column list is
  \<open>id, quantity, id, name, emoji, price, description, category\<close>, so the \<open>id\<close> of the
  object is the one assigned last, the product's, and the cart row's own id is not in
  the response.
\<close>

record view_row =
  v_id :: int
  v_quantity :: int
  v_name :: string
  v_emoji :: string
  v_price :: rat
  v_description :: "string option"
  v_category :: "string option"

definition row_object :: "cart_row \<Rightarrow> product \<Rightarrow> view_row" where
  "row_object c p =
     \<lparr>v_id = p_id p, v_quantity = c_quantity c, v_name = p_name p, v_emoji = p_emoji p,
      v_price = p_price p, v_description = p_description p, v_category = p_category p\<rparr>"

definition join_row :: "product list \<Rightarrow> cart_row \<Rightarrow> view_row list" where
  "join_row ps c = map (row_object c) (filter (\<lambda>p. c_product_id c = p_id p) ps)"

definition select_cart_join :: "db \<Rightarrow> view_row list" where
  "select_cart_join d = concat (map (join_row (products d)) (cart d))"

section \<open>The cart routes (routes/cart.js)\<close>

text \<open>
  A response is either \<^verbatim>\<open>res.status(500).json({ error: err.message })\<close> or
  \<^verbatim>\<open>res.json(...)\<close>. The \<open>err\<close> that the driver hands to a callback is an argument
  of the handler: \<open>None\<close> when the statement ran, \<open>Some message\<close> when it failed, in
  which case the statement changed nothing.
\<close>

datatype 'a response = Status500 string | Json 'a

text \<open>\<^verbatim>\<open>router.get('/')\<close>\<close>

definition cart_get :: "string option \<Rightarrow> db \<Rightarrow> view_row list response" where
  "cart_get err d =
     (case err of Some message \<Rightarrow> Status500 message
      | None \<Rightarrow> Json (select_cart_join d))"

text \<open>
  \<^verbatim>\<open>router.post('/')\<close>, in its two parts: the \<open>SELECT\<close>, and the callback that
  receives its row. The callback does not look at the \<open>err\<close> of the \<open>SELECT\<close>; a failed
  \<open>SELECT\<close> passes no row, so the callback takes the \<open>INSERT\<close> branch. The response is the
  pair \<open>(id, message)\<close>.
\<close>

definition post_select :: "string option \<Rightarrow> db \<Rightarrow> int \<Rightarrow> cart_row option" where
  "post_select err d product_id =
     (case err of Some _ \<Rightarrow> None | None \<Rightarrow> select_cart_by_product d product_id)"

definition post_callback ::
  "string option \<Rightarrow> db \<Rightarrow> cart_row option \<Rightarrow> int \<Rightarrow> int \<Rightarrow> db \<times> (int \<times> string) response" where
  "post_callback err d row product_id quantity =
     (case row of
        Some r \<Rightarrow>
          (case err of Some message \<Rightarrow> (d, Status500 message)
           | None \<Rightarrow> (update_cart_increment d quantity product_id,
                      Json (c_id r, ''Cart updated'')))
      | None \<Rightarrow>
          (case err of Some message \<Rightarrow> (d, Status500 message)
           | None \<Rightarrow> (let (d', lastID) = insert_cart d product_id quantity
                      in (d', Json (lastID, ''Added to cart'')))))"

definition cart_post ::
  "string option \<Rightarrow> string option \<Rightarrow> db \<Rightarrow> int \<Rightarrow> int \<Rightarrow> db \<times> (int \<times> string) response" where
  "cart_post err_get err_run d product_id quantity =
     post_callback err_run d (post_select err_get d product_id) product_id quantity"

text \<open>\<^verbatim>\<open>router.put('/:id')\<close>\<close>

definition cart_put :: "string option \<Rightarrow> db \<Rightarrow> int \<Rightarrow> int \<Rightarrow> db \<times> string response" where
  "cart_put err d line_id quantity =
     (case err of Some message \<Rightarrow> (d, Status500 message)
      | None \<Rightarrow> (update_cart_quantity d quantity line_id, Json ''Quantity updated''))"

text \<open>\<^verbatim>\<open>router.delete('/:id')\<close>\<close>

definition cart_delete :: "string option \<Rightarrow> db \<Rightarrow> int \<Rightarrow> db \<times> string response" where
  "cart_delete err d line_id =
     (case err of Some message \<Rightarrow> (d, Status500 message)
      | None \<Rightarrow> (delete_cart d line_id, Json ''Item removed''))"

text \<open>
  The store that \<^verbatim>\<open>CREATE TABLE IF NOT EXISTS cart\<close> leaves on a new database file:
  no cart row and no recorded sequence value, beside a catalog \<open>ps\<close>.
\<close>

definition empty_cart :: "product list \<Rightarrow> db" where
  "empty_cart ps = \<lparr>products = ps, cart = [], cart_seq = 0\<rparr>"

text \<open>The intended invariant of the cart table: no two lines of the same product.\<close>

definition one_line_per_product :: "db \<Rightarrow> bool" where
  "one_line_per_product d = distinct (map c_product_id (cart d))"

text \<open>A cart row is orphaned when no product has its \<open>product_id\<close>.\<close>

definition orphan :: "db \<Rightarrow> cart_row \<Rightarrow> bool" where
  "orphan d r = (c_product_id r \<notin> p_id ` set (products d))"

text \<open>A one-product catalog for the examples: the first row of the seed data (its
  emoji, which is not ASCII, replaced by a question mark).\<close>

definition catalog1 :: "product list" where
  "catalog1 =
     [\<lparr>p_id = 1, p_name = ''Laptop Pro'', p_emoji = ''?'', p_price = 129999 / 100,
       p_description = Some ''High-performance laptop'', p_category = Some ''Electronics''\<rparr>]"

subsection \<open>Sequences of requests, one after the other\<close>

text \<open>
  The three mutating calls of the cart service, each handled to its response before
  the next one arrives, on a store whose statements all run (\<open>err\<close> is \<open>null\<close>).
\<close>

datatype cart_op = AddOrIncrement int int | SetQuantity int int | Remove int

fun apply_op :: "db \<Rightarrow> cart_op \<Rightarrow> db" where
  "apply_op d (AddOrIncrement product_id quantity) =
     fst (cart_post None None d product_id quantity)"
| "apply_op d (SetQuantity line_id quantity) = fst (cart_put None d line_id quantity)"
| "apply_op d (Remove line_id) = fst (cart_delete None d line_id)"

definition run_ops :: "db \<Rightarrow> cart_op list \<Rightarrow> db" where
  "run_ops d ops = foldl apply_op d ops"

text \<open>
  A call touches product \<open>p\<close> other than by adding when it is a \<open>SetQuantity\<close> or a
  \<open>Remove\<close> whose line id is, at that moment, the id of a line of \<open>p\<close>.
\<close>

fun touches :: "db \<Rightarrow> cart_op \<Rightarrow> int \<Rightarrow> bool" where
  "touches d (AddOrIncrement product_id quantity) p = False"
| "touches d (SetQuantity line_id quantity) p =
     list_ex (\<lambda>r. c_id r = line_id \<and> c_product_id r = p) (cart d)"
| "touches d (Remove line_id) p =
     list_ex (\<lambda>r. c_id r = line_id \<and> c_product_id r = p) (cart d)"

fun only_added :: "db \<Rightarrow> cart_op list \<Rightarrow> int \<Rightarrow> bool" where
  "only_added d [] p = True"
| "only_added d (x # xs) p = (\<not> touches d x p \<and> only_added (apply_op d x) xs p)"

fun increments :: "cart_op list \<Rightarrow> int \<Rightarrow> int list" where
  "increments [] p = []"
| "increments (AddOrIncrement product_id quantity # xs) p =
     (if product_id = p then quantity # increments xs p else increments xs p)"
| "increments (x # xs) p = increments xs p"

text \<open>The quantities of the lines of product \<open>p\<close>, in row order.\<close>

definition quantities_of :: "db \<Rightarrow> int \<Rightarrow> int list" where
  "quantities_of d p = map c_quantity (filter (\<lambda>r. c_product_id r = p) (cart d))"

subsection \<open>Requests in flight together\<close>

text \<open>
  \<^verbatim>\<open>router.post('/')\<close> returns to the event loop after it has issued the \<open>SELECT\<close>,
  and its callback issues the write later; nothing (no transaction, no
  \<^verbatim>\<open>db.serialize\<close>) ties the two statements together, so the statements of other
  requests can run in between. A request is therefore in one of three phases:
  received, holding the row its \<open>SELECT\<close> returned, or answered. A schedule names, step
  by step, the request whose next statement runs.
\<close>

datatype request =
  Received int int
  | Selected "cart_row option" int int
  | Responded "(int \<times> string) response"

fun request_step :: "db \<Rightarrow> request \<Rightarrow> db \<times> request" where
  "request_step d (Received product_id quantity) =
     (d, Selected (post_select None d product_id) product_id quantity)"
| "request_step d (Selected row product_id quantity) =
     (let (d', res) = post_callback None d row product_id quantity in (d', Responded res))"
| "request_step d (Responded res) = (d, Responded res)"

fun run_schedule :: "db \<Rightarrow> request list \<Rightarrow> nat list \<Rightarrow> db \<times> request list" where
  "run_schedule d rs [] = (d, rs)"
| "run_schedule d rs (i # sched) =
     (if i < length rs
      then (let (d', r') = request_step d (rs ! i) in run_schedule d' (rs[i := r']) sched)
      else run_schedule d rs sched)"

text \<open>The schedule that runs \<open>n\<close> requests one after the other, each to its response.\<close>

definition serial :: "nat \<Rightarrow> nat \<Rightarrow> nat list" where
  "serial k n = concat (map (\<lambda>i. [i, i]) [k..<k + n])"

text \<open>
  Bookkeeping for a set of calls in flight: the quantity a call has still to write,
  whether it has answered, whether it holds the answer \<open>line absent\<close> or a row of its
  \<open>SELECT\<close>, and the product it is for. \<open>reads_absent\<close> tells whether the next
  statement of a call is a \<open>SELECT\<close> that finds no line, and \<open>absent_reads\<close> counts
  these along a schedule.
\<close>

fun pending_quantity :: "request \<Rightarrow> int" where
  "pending_quantity (Received product_id quantity) = quantity"
| "pending_quantity (Selected row product_id quantity) = quantity"
| "pending_quantity (Responded res) = 0"

fun responded :: "request \<Rightarrow> bool" where
  "responded (Received product_id quantity) = False"
| "responded (Selected row product_id quantity) = False"
| "responded (Responded res) = True"

fun holds_absent :: "request \<Rightarrow> int" where
  "holds_absent (Received product_id quantity) = 0"
| "holds_absent (Selected row product_id quantity) = (if row = None then 1 else 0)"
| "holds_absent (Responded res) = 0"

fun holds_row :: "request \<Rightarrow> bool" where
  "holds_row (Received product_id quantity) = False"
| "holds_row (Selected row product_id quantity) = (row \<noteq> None)"
| "holds_row (Responded res) = False"

fun for_product :: "int \<Rightarrow> request \<Rightarrow> bool" where
  "for_product p (Received product_id quantity) = (product_id = p)"
| "for_product p (Selected row product_id quantity) = (product_id = p)"
| "for_product p (Responded res) = True"

fun reads_absent :: "db \<Rightarrow> request \<Rightarrow> int" where
  "reads_absent d (Received product_id quantity) =
     (if post_select None d product_id = None then 1 else 0)"
| "reads_absent d (Selected row product_id quantity) = 0"
| "reads_absent d (Responded res) = 0"

fun absent_reads :: "db \<Rightarrow> request list \<Rightarrow> nat list \<Rightarrow> int" where
  "absent_reads d rs [] = 0"
| "absent_reads d rs (i # sched) =
     (if i < length rs
      then (let (d', r') = request_step d (rs ! i)
            in reads_absent d (rs ! i) + absent_reads d' (rs[i := r']) sched)
      else absent_reads d rs sched)"

definition pending :: "request list \<Rightarrow> int" where
  "pending rs = sum_list (map pending_quantity rs)"

definition absent_held :: "request list \<Rightarrow> int" where
  "absent_held rs = sum_list (map holds_absent rs)"

section \<open>The clients (frontend/src/pages)\<close>

subsection \<open>JavaScript numbers\<close>

text \<open>
  The prices and the total of the cart page are JavaScript numbers: binary64 floating
  point, every operation rounded to nearest, ties to even. A finite number is kept as
  its exact value, a rational; \<open>None\<close> stands for the three values that are not finite
  (\<open>Infinity\<close>, \<open>-Infinity\<close>, \<open>NaN\<close>), which a sum or a product with a non-finite
  operand never leaves. The two zeros are not told apart.
\<close>

definition pow2 :: "int \<Rightarrow> rat" where
  "pow2 k = (if 0 \<le> k then 2 ^ nat k else 1 / 2 ^ nat (- k))"

text \<open>\<open>\<lfloor>log\<^sub>2 x\<rfloor>\<close> for a positive rational, from the bit length of an integer.\<close>

definition ilog2 :: "rat \<Rightarrow> int" where
  "ilog2 x = (if 1 \<le> x then bitlen \<lfloor>x\<rfloor> - 1 else - bitlen (\<lceil>1 / x\<rceil> - 1))"

text \<open>
  The integer nearest to a rational, the even one of two equally near.
\<close>

definition nearest_even :: "rat \<Rightarrow> int" where
  "nearest_even q =
     (let n = \<lfloor>q\<rfloor>; r = q - of_int n
      in if r < 1 / 2 then n else if 1 / 2 < r then n + 1
         else if even n then n else n + 1)"

text \<open>
  Rounding to 53 significant bits: the result is a multiple of the spacing
  \<open>2 powr (e - 52)\<close>, where \<open>e\<close> is the binary exponent of the number, and not
  below \<open>-1022\<close> (smaller numbers keep the spacing \<open>2 powr -1074\<close>). A result of
  magnitude \<open>2 ^ 1024\<close> or more overflows.
\<close>

definition b64_exponent :: "rat \<Rightarrow> int" where
  "b64_exponent x = max (ilog2 \<bar>x\<bar>) (- 1022)"

definition b64_nearest :: "rat \<Rightarrow> rat" where
  "b64_nearest x =
     (if x = 0 then 0
      else let ulp = pow2 (b64_exponent x - 52)
           in of_int (nearest_even (x / ulp)) * ulp)"

definition b64_round :: "rat \<Rightarrow> rat option" where
  "b64_round x = (let y = b64_nearest x in if 2 ^ 1024 \<le> \<bar>y\<bar> then None else Some y)"

text \<open>The number that \<^verbatim>\<open>res.json()\<close> reads from a numeric literal of the response.\<close>

definition js_number :: "rat \<Rightarrow> rat option" where
  "js_number x = b64_round x"

definition js_mul :: "rat option \<Rightarrow> rat option \<Rightarrow> rat option" where
  "js_mul a b = (case a of None \<Rightarrow> None
                 | Some x \<Rightarrow> (case b of None \<Rightarrow> None | Some y \<Rightarrow> b64_round (x * y)))"

definition js_add :: "rat option \<Rightarrow> rat option \<Rightarrow> rat option" where
  "js_add a b = (case a of None \<Rightarrow> None
                 | Some x \<Rightarrow> (case b of None \<Rightarrow> None | Some y \<Rightarrow> b64_round (x + y)))"

subsection \<open>The total of the cart page (Cart.js)\<close>

text \<open>\<^verbatim>\<open>cartItems.reduce((sum, item) => sum + (item.price * item.quantity), 0)\<close>\<close>

definition cart_total :: "view_row list \<Rightarrow> rat option" where
  "cart_total cartItems =
     foldl (\<lambda>sum item. js_add sum (js_mul (js_number (v_price item))
                                          (js_number (of_int (v_quantity item)))))
       (Some 0) cartItems"

text \<open>
  What the specification asks of the total: the sum of price times quantity over the
  lines, in exact arithmetic.
\<close>

definition exact_total :: "view_row list \<Rightarrow> rat" where
  "exact_total cartItems =
     sum_list (map (\<lambda>item. v_price item * of_int (v_quantity item)) cartItems)"

text \<open>
  No operation of the total rounds: every price, quantity, product and partial sum is
  a binary64 number as it stands.
\<close>

fun exact_steps :: "rat \<Rightarrow> view_row list \<Rightarrow> bool" where
  "exact_steps acc [] = True"
| "exact_steps acc (item # items) =
     (js_number (v_price item) = Some (v_price item) \<and>
      js_number (of_int (v_quantity item)) = Some (of_int (v_quantity item)) \<and>
      b64_round (v_price item * of_int (v_quantity item))
        = Some (v_price item * of_int (v_quantity item)) \<and>
      b64_round (acc + v_price item * of_int (v_quantity item))
        = Some (acc + v_price item * of_int (v_quantity item)) \<and>
      exact_steps (acc + v_price item * of_int (v_quantity item)) items)"

text \<open>
  A line of an ordinary cart: a price that is a non-negative whole number of cents,
  and a non-negative quantity, both below \<open>2 ^ 30\<close>.
\<close>

definition priced_in_cents :: "view_row \<Rightarrow> bool" where
  "priced_in_cents item =
     (0 \<le> v_price item \<and> v_price item < 2 ^ 30 \<and>
      of_int \<lfloor>v_price item * 100\<rfloor> = v_price item * 100 \<and>
      0 \<le> v_quantity item \<and> v_quantity item < 2 ^ 30)"

text \<open>
  Rows of a response for the examples: a product id, a price and a quantity, the other
  columns fixed. The example of the specification has three lines, 19.99 times 3, 5.00
  times 2 and 100.00 times 1.
\<close>

definition cart_line :: "int \<Rightarrow> rat \<Rightarrow> int \<Rightarrow> view_row" where
  "cart_line i price quantity =
     \<lparr>v_id = i, v_quantity = quantity, v_name = ''item'', v_emoji = ''?'', v_price = price,
      v_description = None, v_category = None\<rparr>"

definition spec_example_cart :: "view_row list" where
  "spec_example_cart = [cart_line 1 (1999 / 100) 3, cart_line 2 5 2, cart_line 3 100 1]"

definition drift_cart :: "view_row list" where
  "drift_cart = [cart_line 1 (1 / 10) 1, cart_line 2 (2 / 10) 1]"

text \<open>
  \<^verbatim>\<open>total.toFixed(2)\<close>: the decimal digits of the integer \<open>n\<close> nearest to a hundred
  times the magnitude (the larger one of two), padded to three digits, with a point
  before the last two and a minus sign for a negative number. The result is \<open>None\<close>
  where \<open>toFixed\<close> does not produce two decimals: for a number that is not finite
  or is \<open>10 ^ 21\<close> or more in magnitude.
\<close>

fun dec_digits :: "nat \<Rightarrow> string" where
  "dec_digits n =
     (if n < 10 then [''0123456789'' ! n]
      else dec_digits (n div 10) @ [''0123456789'' ! (n mod 10)])"

declare dec_digits.simps [simp del]

definition to_fixed2 :: "rat option \<Rightarrow> string option" where
  "to_fixed2 x =
     (case x of None \<Rightarrow> None
      | Some v \<Rightarrow>
          if 10 ^ 21 \<le> \<bar>v\<bar> then None
          else let n = nat \<lfloor>\<bar>v\<bar> * 100 + 1 / 2\<rfloor>;
                   m = dec_digits n;
                   m = (if length m \<le> 2 then replicate (3 - length m) CHR ''0'' @ m else m);
                   k = length m
               in Some ((if v < 0 then ''-'' else []) @ take (k - 2) m @ ''.'' @ drop (k - 2) m))"

subsection \<open>The quantity selectors (Product.js, Cart.js)\<close>

text \<open>
  The three controls of a quantity selector. A typed value arrives as the result of
  \<^verbatim>\<open>parseInt(e.target.value)\<close>, \<open>None\<close> for \<open>NaN\<close>; \<^verbatim>\<open>parseInt(...) || 1\<close> replaces
  \<open>NaN\<close> and \<open>0\<close> by \<open>1\<close>.
\<close>

datatype selector_event = Minus | Typed "int option" | Plus

definition or_one :: "int option \<Rightarrow> int" where
  "or_one v = (case v of None \<Rightarrow> 1 | Some n \<Rightarrow> if n = 0 then 1 else n)"

text \<open>Product.js: the new value of the \<open>quantity\<close> state, which starts at 1 and is what
  \<open>addToCart\<close> posts.\<close>

fun product_selector :: "int \<Rightarrow> selector_event \<Rightarrow> int" where
  "product_selector quantity Minus = max 1 (quantity - 1)"
| "product_selector quantity (Typed v) = max 1 (or_one v)"
| "product_selector quantity Plus = quantity + 1"

definition product_page_quantity :: "selector_event list \<Rightarrow> int" where
  "product_page_quantity evs = foldl product_selector 1 evs"

text \<open>Cart.js: the quantity handed to \<open>updateQuantity\<close>, that is, sent in the \<open>PUT\<close>,
  for an item whose quantity is \<open>quantity\<close>.\<close>

fun cart_selector :: "int \<Rightarrow> selector_event \<Rightarrow> int" where
  "cart_selector quantity Minus = max 1 (quantity - 1)"
| "cart_selector quantity (Typed v) = max 1 (or_one v)"
| "cart_selector quantity Plus = quantity + 1"

section \<open>Properties of the statements and the routes\<close>

lemmas eval_defs =
  cart_post_def post_select_def post_callback_def insert_cart_def Let_def empty_cart_def
  select_cart_by_product_def next_rowid_def max_rowid_def update_cart_increment_def
  cart_put_def update_cart_quantity_def cart_delete_def delete_cart_def cart_get_def
  select_cart_join_def join_row_def row_object_def

lemma max_rowid_ge: "r \<in> set rows \<Longrightarrow> c_id r \<le> max_rowid rows"
  unfolding max_rowid_def by (induction rows) auto

lemma next_rowid_fresh: "r \<in> set (cart d) \<Longrightarrow> c_id r < next_rowid d"
  using max_rowid_ge [of r "cart d"] by (simp add: next_rowid_def)

lemma select_None_iff:
  "select_cart_by_product d p = None \<longleftrightarrow> p \<notin> c_product_id ` set (cart d)"
  by (auto simp: select_cart_by_product_def find_None_iff)

lemma cart_post_found:
  "select_cart_by_product d p = Some row \<Longrightarrow>
   cart_post None None d p q = (update_cart_increment d q p, Json (c_id row, ''Cart updated''))"
  by (simp add: cart_post_def post_select_def post_callback_def)

lemma cart_post_absent:
  "select_cart_by_product d p = None \<Longrightarrow>
   cart_post None None d p q =
     (d\<lparr>cart := cart d @ [\<lparr>c_id = next_rowid d, c_product_id = p, c_quantity = q\<rparr>],
        cart_seq := next_rowid d\<rparr>, Json (next_rowid d, ''Added to cart''))"
  by (simp add: cart_post_def post_select_def post_callback_def insert_cart_def Let_def)

lemma cart_put_ok:
  "cart_put None d i q = (update_cart_quantity d q i, Json ''Quantity updated'')"
  by (simp add: cart_put_def)

lemma cart_delete_ok:
  "cart_delete None d i = (delete_cart d i, Json ''Item removed'')"
  by (simp add: cart_delete_def)

lemma increment_columns:
  "map c_product_id (cart (update_cart_increment d q p)) = map c_product_id (cart d)"
  "map c_id (cart (update_cart_increment d q p)) = map c_id (cart d)"
  "map c_quantity (cart (update_cart_increment d q p))
     = map (\<lambda>r. if c_product_id r = p then c_quantity r + q else c_quantity r) (cart d)"
  by (simp_all add: update_cart_increment_def comp_def if_distrib cong: if_cong)

lemma update_quantity_columns:
  "map c_id (cart (update_cart_quantity d q i)) = map c_id (cart d)"
  "map c_product_id (cart (update_cart_quantity d q i)) = map c_product_id (cart d)"
  "map c_quantity (cart (update_cart_quantity d q i))
     = map (\<lambda>r. if c_id r = i then q else c_quantity r) (cart d)"
  by (simp_all add: update_cart_quantity_def comp_def if_distrib cong: if_cong)

lemma update_quantity_same:
  "i \<notin> c_id ` set rows \<Longrightarrow>
   map (\<lambda>r. if c_id r = i then r\<lparr>c_quantity := q\<rparr> else r) rows = rows"
  by (induction rows) auto

lemma update_quantity_twice:
  "map (\<lambda>r. if c_id r = i then r\<lparr>c_quantity := q\<rparr> else r)
     (map (\<lambda>r. if c_id r = i then r\<lparr>c_quantity := q\<rparr> else r) rows)
   = map (\<lambda>r. if c_id r = i then r\<lparr>c_quantity := q\<rparr> else r) rows"
  by (induction rows) auto

lemma update_quantity_hit:
  assumes "r \<in> set (cart (update_cart_quantity d q i))" and "c_id r = i"
  shows "c_quantity r = q"
proof -
  from assms(1)
  have "r \<in> set (map (\<lambda>r. if c_id r = i then r\<lparr>c_quantity := q\<rparr> else r) (cart d))"
    by (simp add: update_cart_quantity_def)
  then obtain r0 where r0: "r = (if c_id r0 = i then r0\<lparr>c_quantity := q\<rparr> else r0)"
    by (auto simp only: set_map image_iff)
  show ?thesis
  proof (cases "c_id r0 = i")
    case True
    with r0 show ?thesis by simp
  next
    case False
    with r0 assms(2) show ?thesis by simp
  qed
qed

lemma quantities_of_increment:
  "quantities_of (update_cart_increment d q p) p = map (\<lambda>c. c + q) (quantities_of d p)"
proof -
  have "map c_quantity (filter (\<lambda>r. c_product_id r = p)
          (map (\<lambda>r. if c_product_id r = p then r\<lparr>c_quantity := c_quantity r + q\<rparr> else r) rows))
        = map (\<lambda>c. c + q) (map c_quantity (filter (\<lambda>r. c_product_id r = p) rows))"
    for rows :: "cart_row list"
    by (induction rows) auto
  from this [of "cart d"] show ?thesis
    by (simp add: quantities_of_def update_cart_increment_def)
qed

lemma join_row_quantity: "v \<in> set (join_row ps r) \<Longrightarrow> v_quantity v = c_quantity r"
  by (auto simp: join_row_def row_object_def)

lemma join_row_in_view:
  "r \<in> set (cart d) \<Longrightarrow> set (join_row (products d) r) \<subseteq> set (select_cart_join d)"
  by (auto simp: select_cart_join_def)

lemma join_row_nonempty: "c_product_id r \<in> p_id ` set ps \<Longrightarrow> join_row ps r \<noteq> []"
  by (auto simp: join_row_def filter_empty_conv)

lemma join_row_orphan: "c_product_id r \<notin> p_id ` set ps \<Longrightarrow> join_row ps r = []"
  by (auto simp: join_row_def filter_empty_conv)

lemma concat_join_filter:
  "concat (map (join_row ps) (filter (\<lambda>r. c_product_id r \<in> p_id ` set ps) rows))
     = concat (map (join_row ps) rows)"
  by (induction rows) (simp_all add: join_row_orphan)

subsection \<open>AddOrIncrement\<close>

lemma select_first_line:
  assumes "p \<in> c_product_id ` set (cart d)"
  shows "select_cart_by_product d p = Some (hd (filter (\<lambda>r. c_product_id r = p) (cart d)))"
proof -
  have "p \<in> c_product_id ` set rows \<Longrightarrow>
        find (\<lambda>r. c_product_id r = p) rows = Some (hd (filter (\<lambda>r. c_product_id r = p) rows))"
    for rows :: "cart_row list"
    by (induction rows) auto
  from this [OF assms] show ?thesis
    by (simp add: select_cart_by_product_def)
qed

text \<open>
  Claim C1. \<open>POST /cart\<close> on a store whose statements run consolidates additions.
  When the cart has a line of the product, no line is created (the ids and the
  products of the lines are as before), the quantity of a line of the product becomes
  its current quantity plus \<open>q\<close>, the other quantities staying as they are, and the
  response is \<open>Cart updated\<close> with the id of the first line of the product. When the
  cart has no line of the product, one line is appended, with quantity \<open>q\<close> and an id
  that no line of the cart has, which the response returns. From an empty cart, adding
  2 and then 3 of a product leaves exactly one line, of that product, with quantity 5.
\<close>

theorem C1_add_or_increment:
  assumes "cart_post None None d p q = (d', res)"
  shows "(p \<in> c_product_id ` set (cart d) \<longrightarrow>
            res = Json (c_id (hd (filter (\<lambda>r. c_product_id r = p) (cart d))),
                        ''Cart updated'') \<and>
            length (cart d') = length (cart d) \<and>
            map c_id (cart d') = map c_id (cart d) \<and>
            map c_product_id (cart d') = map c_product_id (cart d) \<and>
            map c_quantity (cart d') =
              map (\<lambda>r. if c_product_id r = p then c_quantity r + q else c_quantity r) (cart d))
       \<and> (p \<notin> c_product_id ` set (cart d) \<longrightarrow>
            next_rowid d \<notin> c_id ` set (cart d) \<and>
            res = Json (next_rowid d, ''Added to cart'') \<and>
            cart d' = cart d @ [\<lparr>c_id = next_rowid d, c_product_id = p, c_quantity = q\<rparr>])
       \<and> (cart e = [] \<longrightarrow>
            cart (fst (cart_post None None (fst (cart_post None None e p 2)) p 3))
              = [\<lparr>c_id = next_rowid e, c_product_id = p, c_quantity = 5\<rparr>])"
proof (intro conjI impI)
  assume "p \<in> c_product_id ` set (cart d)"
  then have f: "select_cart_by_product d p
      = Some (hd (filter (\<lambda>r. c_product_id r = p) (cart d)))"
    by (rule select_first_line)
  from assms cart_post_found [OF f, of q]
  have d': "d' = update_cart_increment d q p"
    and r: "res = Json (c_id (hd (filter (\<lambda>r. c_product_id r = p) (cart d))), ''Cart updated'')"
    by simp_all
  show "res = Json (c_id (hd (filter (\<lambda>r. c_product_id r = p) (cart d))), ''Cart updated'')"
    by (rule r)
  show "length (cart d') = length (cart d)" by (simp add: d' update_cart_increment_def)
  show "map c_id (cart d') = map c_id (cart d)"
    by (simp add: d' increment_columns)
  show "map c_product_id (cart d') = map c_product_id (cart d)"
    by (simp add: d' increment_columns)
  show "map c_quantity (cart d') =
          map (\<lambda>r. if c_product_id r = p then c_quantity r + q else c_quantity r) (cart d)"
    by (simp add: d' increment_columns)
next
  assume "p \<notin> c_product_id ` set (cart d)"
  then have n: "select_cart_by_product d p = None"
    by (simp add: select_None_iff)
  from assms cart_post_absent [OF n, of q]
  show "res = Json (next_rowid d, ''Added to cart'')"
    and "cart d' = cart d @ [\<lparr>c_id = next_rowid d, c_product_id = p, c_quantity = q\<rparr>]"
    by auto
  show "next_rowid d \<notin> c_id ` set (cart d)"
    using next_rowid_fresh [of _ d] by force
next
  assume "cart e = []"
  then show "cart (fst (cart_post None None (fst (cart_post None None e p 2)) p 3))
            = [\<lparr>c_id = next_rowid e, c_product_id = p, c_quantity = 5\<rparr>]"
    by (simp add: cart_post_def post_select_def post_callback_def insert_cart_def Let_def
        select_cart_by_product_def update_cart_increment_def)
qed

theorem C1_add_or_increment_witness:
  "cart_post None None (empty_cart catalog1) 1 2
     = (\<lparr>products = catalog1, cart = [\<lparr>c_id = 1, c_product_id = 1, c_quantity = 2\<rparr>],
         cart_seq = 1\<rparr>, Json (1, ''Added to cart'')) \<and>
   1 \<notin> c_product_id ` set (cart (empty_cart catalog1)) \<and>
   next_rowid (empty_cart catalog1) \<notin> c_id ` set (cart (empty_cart catalog1)) \<and>
   cart_post None None
     \<lparr>products = catalog1,
      cart = [\<lparr>c_id = 1, c_product_id = 2, c_quantity = 7\<rparr>,
              \<lparr>c_id = 2, c_product_id = 1, c_quantity = 2\<rparr>], cart_seq = 2\<rparr>
     1 3
     = (\<lparr>products = catalog1,
         cart = [\<lparr>c_id = 1, c_product_id = 2, c_quantity = 7\<rparr>,
                 \<lparr>c_id = 2, c_product_id = 1, c_quantity = 5\<rparr>], cart_seq = 2\<rparr>,
        Json (2, ''Cart updated'')) \<and>
   1 \<in> c_product_id ` set (cart \<lparr>products = catalog1,
      cart = [\<lparr>c_id = 1, c_product_id = 2, c_quantity = 7\<rparr>,
              \<lparr>c_id = 2, c_product_id = 1, c_quantity = 2\<rparr>], cart_seq = 2\<rparr>) \<and>
   map c_product_id (cart \<lparr>products = catalog1,
         cart = [\<lparr>c_id = 1, c_product_id = 2, c_quantity = 7\<rparr>,
                 \<lparr>c_id = 2, c_product_id = 1, c_quantity = 5\<rparr>], cart_seq = 2\<rparr>)
     = map c_product_id (cart \<lparr>products = catalog1,
      cart = [\<lparr>c_id = 1, c_product_id = 2, c_quantity = 7\<rparr>,
              \<lparr>c_id = 2, c_product_id = 1, c_quantity = 2\<rparr>], cart_seq = 2\<rparr>) \<and>
   cart (empty_cart catalog1) = [] \<and>
   cart (fst (cart_post None None (fst (cart_post None None (empty_cart catalog1) 1 2)) 1 3))
     = [\<lparr>c_id = next_rowid (empty_cart catalog1), c_product_id = 1, c_quantity = 5\<rparr>]"
proof -
  have h1: "cart_post None None (empty_cart catalog1) 1 2
     = (\<lparr>products = catalog1, cart = [\<lparr>c_id = 1, c_product_id = 1, c_quantity = 2\<rparr>],
         cart_seq = 1\<rparr>, Json (1, ''Added to cart''))"
    by (simp add: eval_defs)
  have n: "1 \<notin> c_product_id ` set (cart (empty_cart catalog1))"
    by (simp add: empty_cart_def)
  have h2: "cart_post None None
     \<lparr>products = catalog1,
      cart = [\<lparr>c_id = 1, c_product_id = 2, c_quantity = 7\<rparr>,
              \<lparr>c_id = 2, c_product_id = 1, c_quantity = 2\<rparr>], cart_seq = 2\<rparr>
     1 3
     = (\<lparr>products = catalog1,
         cart = [\<lparr>c_id = 1, c_product_id = 2, c_quantity = 7\<rparr>,
                 \<lparr>c_id = 2, c_product_id = 1, c_quantity = 5\<rparr>], cart_seq = 2\<rparr>,
        Json (2, ''Cart updated''))"
    by (simp add: eval_defs)
  have s: "1 \<in> c_product_id ` set (cart \<lparr>products = catalog1,
      cart = [\<lparr>c_id = 1, c_product_id = 2, c_quantity = 7\<rparr>,
              \<lparr>c_id = 2, c_product_id = 1, c_quantity = 2\<rparr>], cart_seq = 2\<rparr>)"
    by simp
  have c: "cart (empty_cart catalog1) = []"
    by (simp add: empty_cart_def)
  from C1_add_or_increment [OF h1, of "empty_cart catalog1"] n c
  have a: "next_rowid (empty_cart catalog1) \<notin> c_id ` set (cart (empty_cart catalog1))"
    and e: "cart (fst (cart_post None None
              (fst (cart_post None None (empty_cart catalog1) 1 2)) 1 3))
     = [\<lparr>c_id = next_rowid (empty_cart catalog1), c_product_id = 1, c_quantity = 5\<rparr>]"
    by blast+
  from C1_add_or_increment [OF h2] s
  have b: "map c_product_id (cart \<lparr>products = catalog1,
         cart = [\<lparr>c_id = 1, c_product_id = 2, c_quantity = 7\<rparr>,
                 \<lparr>c_id = 2, c_product_id = 1, c_quantity = 5\<rparr>], cart_seq = 2\<rparr>)
     = map c_product_id (cart \<lparr>products = catalog1,
      cart = [\<lparr>c_id = 1, c_product_id = 2, c_quantity = 7\<rparr>,
              \<lparr>c_id = 2, c_product_id = 1, c_quantity = 2\<rparr>], cart_seq = 2\<rparr>)"
    by blast
  from h1 n a h2 s b c e show ?thesis
    by blast
qed

text \<open>
  Claim C2 asks that \<open>POST /cart\<close> with a \<open>product_id\<close> that no product has fail and
  change nothing. The schema declares the foreign key, but the connection never turns
  its enforcement on and the route does not look the product up: on the empty cart
  beside the one-product catalog, posting product 999 answers \<open>Added to cart\<close> and
  stores a line for product 999.
\<close>

theorem C2_orphan_line_inserted:
  "999 \<notin> p_id ` set catalog1 \<and>
   cart_post None None (empty_cart catalog1) 999 1
     = (\<lparr>products = catalog1, cart = [\<lparr>c_id = 1, c_product_id = 999, c_quantity = 1\<rparr>],
         cart_seq = 1\<rparr>, Json (1, ''Added to cart''))"
  by (simp add: eval_defs catalog1_def)

subsection \<open>Quantities below one\<close>

lemma product_selector_floor: "1 \<le> n \<Longrightarrow> 1 \<le> foldl product_selector n evs"
proof (induction evs arbitrary: n)
  case Nil
  then show ?case by simp
next
  case (Cons ev evs)
  have "1 \<le> product_selector n ev"
    using Cons.prems by (cases ev) simp_all
  then show ?case by (simp add: Cons.IH)
qed

text \<open>
  Claim C3 asks that \<open>POST /cart\<close> and \<open>PUT /cart/{line_id}\<close> reject a quantity
  \<open>q \<le> 0\<close> and change nothing. Neither route looks at the quantity: posting quantity
  0 on the empty cart stores a line with quantity 0, and putting quantity -3 on a line
  overwrites its quantity with -3; both answer with success.
\<close>

theorem C3_nonpositive_quantity_counterexample:
  "(0::int) \<le> 0 \<and> (- 3::int) \<le> 0 \<and>
   cart_post None None (empty_cart catalog1) 1 0
     = (\<lparr>products = catalog1, cart = [\<lparr>c_id = 1, c_product_id = 1, c_quantity = 0\<rparr>],
         cart_seq = 1\<rparr>, Json (1, ''Added to cart'')) \<and>
   cart_put None \<lparr>products = catalog1, cart = [\<lparr>c_id = 1, c_product_id = 1, c_quantity = 2\<rparr>],
                  cart_seq = 1\<rparr> 1 (- 3)
     = (\<lparr>products = catalog1, cart = [\<lparr>c_id = 1, c_product_id = 1, c_quantity = - 3\<rparr>],
         cart_seq = 1\<rparr>, Json ''Quantity updated'')"
  by (simp add: eval_defs)

text \<open>
  Claim C3, as the code has it. For a quantity \<open>q \<le> 0\<close> both routes answer with
  success and store \<open>q\<close> as given: \<open>POST /cart\<close> appends a line with quantity \<open>q\<close>
  when the product has no line and adds \<open>q\<close> to the quantities of its lines when it
  has one; \<open>PUT /cart/{line_id}\<close> overwrites the quantity of the line with \<open>q\<close>.
  The floor of one is kept by the clients only: the quantity that the product page
  posts is at least 1 after any sequence of selector events, and the cart page sends at
  least 1 for its minus button and its input field.
\<close>

theorem C3_quantity_floor_only_in_clients:
  assumes "q \<le> 0"
  shows "(select_cart_by_product d p = None \<longrightarrow>
           cart_post None None d p q
             = (d\<lparr>cart := cart d @ [\<lparr>c_id = next_rowid d, c_product_id = p, c_quantity = q\<rparr>],
                  cart_seq := next_rowid d\<rparr>, Json (next_rowid d, ''Added to cart''))) \<and>
    (\<forall>row. select_cart_by_product d p = Some row \<longrightarrow>
           snd (cart_post None None d p q) = Json (c_id row, ''Cart updated'') \<and>
           quantities_of (fst (cart_post None None d p q)) p
             = map (\<lambda>c. c + q) (quantities_of d p)) \<and>
    snd (cart_put None d i q) = Json ''Quantity updated'' \<and>
    map c_quantity (cart (fst (cart_put None d i q)))
           = map (\<lambda>r. if c_id r = i then q else c_quantity r) (cart d) \<and>
    1 \<le> product_page_quantity evs \<and>
    (ev \<noteq> Plus \<longrightarrow> 1 \<le> cart_selector n ev)"
proof -
  have a: "1 \<le> product_page_quantity evs"
    by (simp add: product_page_quantity_def product_selector_floor)
  have b: "ev \<noteq> Plus \<longrightarrow> 1 \<le> cart_selector n ev"
    by (cases ev) simp_all
  show ?thesis
    using a b
    by (simp add: cart_post_absent cart_post_found quantities_of_increment cart_put_ok
        update_quantity_columns)
qed

theorem C3_quantity_floor_only_in_clients_witness:
  "(0::int) \<le> 0 \<and>
   select_cart_by_product (empty_cart catalog1) 1 = None \<and>
   cart_post None None (empty_cart catalog1) 1 0
     = ((empty_cart catalog1)
          \<lparr>cart := cart (empty_cart catalog1)
             @ [\<lparr>c_id = next_rowid (empty_cart catalog1), c_product_id = 1, c_quantity = 0\<rparr>],
           cart_seq := next_rowid (empty_cart catalog1)\<rparr>,
        Json (next_rowid (empty_cart catalog1), ''Added to cart'')) \<and>
   select_cart_by_product
     \<lparr>products = catalog1, cart = [\<lparr>c_id = 1, c_product_id = 1, c_quantity = 2\<rparr>], cart_seq = 1\<rparr> 1
     = Some \<lparr>c_id = 1, c_product_id = 1, c_quantity = 2\<rparr> \<and>
   snd (cart_post None None
     \<lparr>products = catalog1, cart = [\<lparr>c_id = 1, c_product_id = 1, c_quantity = 2\<rparr>], cart_seq = 1\<rparr>
     1 0) = Json (c_id \<lparr>c_id = 1, c_product_id = 1, c_quantity = 2\<rparr>, ''Cart updated'') \<and>
   Minus \<noteq> Plus \<and> 1 \<le> cart_selector 1 Minus \<and>
   1 \<le> product_page_quantity [Minus, Typed (Some (- 4)), Typed None, Minus]"
proof -
  have z: "(0::int) \<le> 0" by simp
  have n: "select_cart_by_product (empty_cart catalog1) 1 = None"
    by (simp add: select_cart_by_product_def empty_cart_def)
  have s: "select_cart_by_product
     \<lparr>products = catalog1, cart = [\<lparr>c_id = 1, c_product_id = 1, c_quantity = 2\<rparr>], cart_seq = 1\<rparr> 1
     = Some \<lparr>c_id = 1, c_product_id = 1, c_quantity = 2\<rparr>"
    by (simp add: select_cart_by_product_def)
  have m: "Minus \<noteq> Plus" by simp
  from C3_quantity_floor_only_in_clients
         [OF z, of "empty_cart catalog1" 1 0 "[Minus, Typed (Some (- 4)), Typed None, Minus]"
            Minus 1]
       C3_quantity_floor_only_in_clients
         [OF z, of "\<lparr>products = catalog1,
                     cart = [\<lparr>c_id = 1, c_product_id = 1, c_quantity = 2\<rparr>], cart_seq = 1\<rparr>" 1]
       z n s m
  show ?thesis
    by blast
qed

subsection \<open>SetQuantity\<close>

text \<open>
  Claim C4 asks that \<open>PUT /cart/{line_id}\<close> fail with \<open>LineNotFound\<close> when no line has
  the id. The route does not look at the number of rows its \<open>UPDATE\<close> changed: on the
  empty cart, putting quantity 5 on line 42 answers \<open>Quantity updated\<close> and leaves the
  store as it is.
\<close>

theorem C4_put_missing_line_counterexample:
  "42 \<notin> c_id ` set (cart (empty_cart catalog1)) \<and>
   cart_put None (empty_cart catalog1) 42 5 = (empty_cart catalog1, Json ''Quantity updated'')"
  by (simp add: cart_put_def update_cart_quantity_def empty_cart_def)

text \<open>
  Claim C4, as the code has it. \<open>PUT /cart/{line_id}\<close> on a store whose statements run
  always answers \<open>Quantity updated\<close>; when no line has the id the store is unchanged.
  The ids and products of the lines stay as they are, the quantity of the line with
  the id is overwritten to exactly \<open>q\<close> and the other quantities are kept, and the
  same call again leaves the same store. In an immediate view every row that comes
  from the line shows quantity \<open>q\<close>, and there is such a row when the product of the
  line is in the catalog.
\<close>

theorem C4_set_quantity_overwrites:
  assumes "d' = fst (cart_put None d i q)"
  shows "snd (cart_put None d i q) = Json ''Quantity updated'' \<and>
    (i \<notin> c_id ` set (cart d) \<longrightarrow> d' = d) \<and>
    map c_id (cart d') = map c_id (cart d) \<and>
    map c_product_id (cart d') = map c_product_id (cart d) \<and>
    map c_quantity (cart d') = map (\<lambda>r. if c_id r = i then q else c_quantity r) (cart d) \<and>
    cart_put None d' i q = (d', Json ''Quantity updated'') \<and>
    (\<forall>r \<in> set (cart d'). c_id r = i \<longrightarrow>
           c_quantity r = q \<and>
           (\<forall>v \<in> set (join_row (products d') r). v_quantity v = q) \<and>
           set (join_row (products d') r) \<subseteq> set (select_cart_join d') \<and>
           (c_product_id r \<in> p_id ` set (products d') \<longrightarrow> join_row (products d') r \<noteq> []))"
proof -
  have d': "d' = update_cart_quantity d q i"
    by (simp add: assms cart_put_ok)
  have a: "i \<notin> c_id ` set (cart d) \<longrightarrow> d' = d"
    by (simp add: d' update_cart_quantity_def update_quantity_same)
  have b: "cart_put None d' i q = (d', Json ''Quantity updated'')"
    by (simp add: d' cart_put_ok update_cart_quantity_def update_quantity_twice)
  have c: "\<forall>r \<in> set (cart d'). c_id r = i \<longrightarrow>
           c_quantity r = q \<and>
           (\<forall>v \<in> set (join_row (products d') r). v_quantity v = q) \<and>
           set (join_row (products d') r) \<subseteq> set (select_cart_join d') \<and>
           (c_product_id r \<in> p_id ` set (products d') \<longrightarrow> join_row (products d') r \<noteq> [])"
  proof (intro ballI impI conjI)
    fix r assume r: "r \<in> set (cart d')" "c_id r = i"
    then show q: "c_quantity r = q"
      unfolding d' by (rule update_quantity_hit)
    show "set (join_row (products d') r) \<subseteq> set (select_cart_join d')"
      using r(1) by (rule join_row_in_view)
    show "v_quantity v = q" if "v \<in> set (join_row (products d') r)" for v
      using join_row_quantity [OF that] q by simp
    show "join_row (products d') r \<noteq> []" if "c_product_id r \<in> p_id ` set (products d')"
      using that by (rule join_row_nonempty)
  qed
  have e: "snd (cart_put None d i q) = Json ''Quantity updated''"
    by (simp add: cart_put_ok)
  have f: "map c_id (cart d') = map c_id (cart d)"
    "map c_product_id (cart d') = map c_product_id (cart d)"
    "map c_quantity (cart d') = map (\<lambda>r. if c_id r = i then q else c_quantity r) (cart d)"
    by (simp_all add: d' update_quantity_columns)
  from a b c e f show ?thesis
    by blast
qed

theorem C4_set_quantity_overwrites_witness:
  "\<lparr>products = catalog1, cart = [\<lparr>c_id = 1, c_product_id = 1, c_quantity = 7\<rparr>], cart_seq = 1\<rparr>
     = fst (cart_put None
         \<lparr>products = catalog1, cart = [\<lparr>c_id = 1, c_product_id = 1, c_quantity = 2\<rparr>],
          cart_seq = 1\<rparr> 1 7) \<and>
   \<lparr>c_id = 1, c_product_id = 1, c_quantity = 7\<rparr>
     \<in> set (cart \<lparr>products = catalog1,
                    cart = [\<lparr>c_id = 1, c_product_id = 1, c_quantity = 7\<rparr>], cart_seq = 1\<rparr>) \<and>
   c_id \<lparr>c_id = 1, c_product_id = 1, c_quantity = 7\<rparr> = 1 \<and>
   c_product_id \<lparr>c_id = 1, c_product_id = 1, c_quantity = 7\<rparr>
     \<in> p_id ` set (products \<lparr>products = catalog1,
                    cart = [\<lparr>c_id = 1, c_product_id = 1, c_quantity = 7\<rparr>], cart_seq = 1\<rparr>) \<and>
   join_row (products \<lparr>products = catalog1,
                    cart = [\<lparr>c_id = 1, c_product_id = 1, c_quantity = 7\<rparr>], cart_seq = 1\<rparr>)
     \<lparr>c_id = 1, c_product_id = 1, c_quantity = 7\<rparr> \<noteq> [] \<and>
   42 \<notin> c_id ` set (cart (empty_cart catalog1)) \<and>
   empty_cart catalog1 = fst (cart_put None (empty_cart catalog1) 42 5)"
proof -
  have h: "\<lparr>products = catalog1, cart = [\<lparr>c_id = 1, c_product_id = 1, c_quantity = 7\<rparr>],
            cart_seq = 1\<rparr>
     = fst (cart_put None
         \<lparr>products = catalog1, cart = [\<lparr>c_id = 1, c_product_id = 1, c_quantity = 2\<rparr>],
          cart_seq = 1\<rparr> 1 7)"
    by (simp add: cart_put_def update_cart_quantity_def)
  have m: "\<lparr>c_id = 1, c_product_id = 1, c_quantity = 7\<rparr>
     \<in> set (cart \<lparr>products = catalog1,
                    cart = [\<lparr>c_id = 1, c_product_id = 1, c_quantity = 7\<rparr>], cart_seq = 1\<rparr>)"
    by simp
  have i: "c_id \<lparr>c_id = 1, c_product_id = 1, c_quantity = 7\<rparr> = 1"
    by simp
  have p: "c_product_id \<lparr>c_id = 1, c_product_id = 1, c_quantity = 7\<rparr>
     \<in> p_id ` set (products \<lparr>products = catalog1,
                    cart = [\<lparr>c_id = 1, c_product_id = 1, c_quantity = 7\<rparr>], cart_seq = 1\<rparr>)"
    by (simp add: catalog1_def)
  have a: "42 \<notin> c_id ` set (cart (empty_cart catalog1))"
    by (simp add: empty_cart_def)
  have e: "empty_cart catalog1 = fst (cart_put None (empty_cart catalog1) 42 5)"
    by (simp add: cart_put_def update_cart_quantity_def empty_cart_def)
  from C4_set_quantity_overwrites [OF h] m i p
  have j: "join_row (products \<lparr>products = catalog1,
                    cart = [\<lparr>c_id = 1, c_product_id = 1, c_quantity = 7\<rparr>], cart_seq = 1\<rparr>)
     \<lparr>c_id = 1, c_product_id = 1, c_quantity = 7\<rparr> \<noteq> []"
    by blast
  from C4_set_quantity_overwrites [OF e] h m i p j a e show ?thesis
    by blast
qed

subsection \<open>Remove\<close>

lemma filter_absent_id:
  "i \<notin> c_id ` set rows \<Longrightarrow> filter (\<lambda>r. c_id r \<noteq> i) rows = rows"
  by (induction rows) auto

text \<open>
  Claim C5. \<open>DELETE /cart/{line_id}\<close> on a store whose statements run is idempotent:
  for every id the call answers \<open>Item removed\<close>, whether or not a line has the id;
  afterwards no line has the id; the same call again answers \<open>Item removed\<close> too and
  changes nothing; and a call for an id that no line has leaves the store as it is.
\<close>

theorem C5_remove_idempotent:
  "snd (cart_delete None d i) = Json ''Item removed'' \<and>
   i \<notin> c_id ` set (cart (fst (cart_delete None d i))) \<and>
   cart_delete None (fst (cart_delete None d i)) i
     = (fst (cart_delete None d i), Json ''Item removed'') \<and>
   (i \<notin> c_id ` set (cart d) \<longrightarrow> cart_delete None d i = (d, Json ''Item removed''))"
proof -
  have a: "i \<notin> c_id ` set (cart (delete_cart d i))"
    by (auto simp: delete_cart_def)
  have b: "delete_cart (delete_cart d i) i = delete_cart d i"
    by (simp add: delete_cart_def)
  have c: "i \<notin> c_id ` set (cart d) \<longrightarrow> delete_cart d i = d"
    by (simp add: delete_cart_def filter_absent_id)
  from a b c show ?thesis
    by (simp add: cart_delete_ok)
qed

theorem C5_remove_idempotent_witness:
  "42 \<notin> c_id ` set (cart (empty_cart catalog1)) \<and>
   cart_delete None (empty_cart catalog1) 42 = (empty_cart catalog1, Json ''Item removed'') \<and>
   1 \<notin> c_id ` set (cart (fst (cart_delete None
     \<lparr>products = catalog1, cart = [\<lparr>c_id = 1, c_product_id = 1, c_quantity = 2\<rparr>],
      cart_seq = 1\<rparr> 1)))"
proof -
  have a: "42 \<notin> c_id ` set (cart (empty_cart catalog1))"
    by (simp add: empty_cart_def)
  from C5_remove_idempotent [of "empty_cart catalog1" 42]
       C5_remove_idempotent [of "\<lparr>products = catalog1,
         cart = [\<lparr>c_id = 1, c_product_id = 1, c_quantity = 2\<rparr>], cart_seq = 1\<rparr>" 1] a
  show ?thesis
    by blast
qed

subsection \<open>View\<close>

text \<open>
  Claim C6. When the cart table has no row, \<open>GET /cart\<close> on a store whose statement
  runs answers with the empty list, not with an error, and the total that the cart
  page computes from that list is 0.
\<close>

theorem C6_empty_view:
  assumes "cart d = []"
  shows "cart_get None d = Json [] \<and> cart_get None d \<noteq> Status500 message \<and>
         cart_total [] = Some 0 \<and> exact_total [] = 0"
  using assms by (simp add: cart_get_def select_cart_join_def cart_total_def exact_total_def)

theorem C6_empty_view_witness:
  "cart (empty_cart catalog1) = [] \<and> cart_get None (empty_cart catalog1) = Json [] \<and>
   cart_total [] = Some 0"
proof -
  have h: "cart (empty_cart catalog1) = []"
    by (simp add: empty_cart_def)
  from C6_empty_view [OF h] h show ?thesis
    by blast
qed

text \<open>
  Claim C10. \<open>GET /cart\<close> on a store whose statement runs leaves out every cart line
  whose product is missing: such a line joins with no product, so the response, which
  is a list and not an error, is the one the cart would give without its orphaned
  lines, and so is the total computed from it. The route only reads: the lines stay
  in the table.
\<close>

theorem C10_view_omits_orphans:
  "cart_get None d
     = Json (select_cart_join (d\<lparr>cart := filter (\<lambda>r. \<not> orphan d r) (cart d)\<rparr>)) \<and>
   cart_total (select_cart_join d)
     = cart_total (select_cart_join (d\<lparr>cart := filter (\<lambda>r. \<not> orphan d r) (cart d)\<rparr>)) \<and>
   (\<forall>r \<in> set (cart d). orphan d r \<longrightarrow> join_row (products d) r = [])"
  by (simp add: cart_get_def select_cart_join_def orphan_def concat_join_filter join_row_orphan)

theorem C10_view_omits_orphans_witness:
  "\<lparr>c_id = 2, c_product_id = 999, c_quantity = 1\<rparr>
     \<in> set (cart \<lparr>products = catalog1,
                    cart = [\<lparr>c_id = 1, c_product_id = 1, c_quantity = 2\<rparr>,
                            \<lparr>c_id = 2, c_product_id = 999, c_quantity = 1\<rparr>], cart_seq = 2\<rparr>) \<and>
   orphan \<lparr>products = catalog1,
           cart = [\<lparr>c_id = 1, c_product_id = 1, c_quantity = 2\<rparr>,
                   \<lparr>c_id = 2, c_product_id = 999, c_quantity = 1\<rparr>], cart_seq = 2\<rparr>
     \<lparr>c_id = 2, c_product_id = 999, c_quantity = 1\<rparr> \<and>
   join_row (products \<lparr>products = catalog1,
           cart = [\<lparr>c_id = 1, c_product_id = 1, c_quantity = 2\<rparr>,
                   \<lparr>c_id = 2, c_product_id = 999, c_quantity = 1\<rparr>], cart_seq = 2\<rparr>)
     \<lparr>c_id = 2, c_product_id = 999, c_quantity = 1\<rparr> = [] \<and>
   cart_get None \<lparr>products = catalog1,
           cart = [\<lparr>c_id = 1, c_product_id = 1, c_quantity = 2\<rparr>,
                   \<lparr>c_id = 2, c_product_id = 999, c_quantity = 1\<rparr>], cart_seq = 2\<rparr>
     = Json [\<lparr>v_id = 1, v_quantity = 2, v_name = ''Laptop Pro'', v_emoji = ''?'',
              v_price = 129999 / 100, v_description = Some ''High-performance laptop'',
              v_category = Some ''Electronics''\<rparr>]"
proof -
  have m: "\<lparr>c_id = 2, c_product_id = 999, c_quantity = 1\<rparr>
     \<in> set (cart \<lparr>products = catalog1,
                    cart = [\<lparr>c_id = 1, c_product_id = 1, c_quantity = 2\<rparr>,
                            \<lparr>c_id = 2, c_product_id = 999, c_quantity = 1\<rparr>], cart_seq = 2\<rparr>)"
    by simp
  have o: "orphan \<lparr>products = catalog1,
           cart = [\<lparr>c_id = 1, c_product_id = 1, c_quantity = 2\<rparr>,
                   \<lparr>c_id = 2, c_product_id = 999, c_quantity = 1\<rparr>], cart_seq = 2\<rparr>
     \<lparr>c_id = 2, c_product_id = 999, c_quantity = 1\<rparr>"
    by (simp add: orphan_def catalog1_def)
  have v: "cart_get None \<lparr>products = catalog1,
           cart = [\<lparr>c_id = 1, c_product_id = 1, c_quantity = 2\<rparr>,
                   \<lparr>c_id = 2, c_product_id = 999, c_quantity = 1\<rparr>], cart_seq = 2\<rparr>
     = Json [\<lparr>v_id = 1, v_quantity = 2, v_name = ''Laptop Pro'', v_emoji = ''?'',
              v_price = 129999 / 100, v_description = Some ''High-performance laptop'',
              v_category = Some ''Electronics''\<rparr>]"
    by (simp add: cart_get_def select_cart_join_def join_row_def row_object_def catalog1_def)
  from C10_view_omits_orphans [of "\<lparr>products = catalog1,
           cart = [\<lparr>c_id = 1, c_product_id = 1, c_quantity = 2\<rparr>,
                   \<lparr>c_id = 2, c_product_id = 999, c_quantity = 1\<rparr>], cart_seq = 2\<rparr>"] m o v
  show ?thesis
    by blast
qed

section \<open>Sequences of calls\<close>

subsection \<open>One call after the other\<close>

lemma apply_op_invariant:
  assumes "one_line_per_product d"
  shows "one_line_per_product (apply_op d x)"
proof (cases x)
  case (AddOrIncrement p q)
  show ?thesis
  proof (cases "select_cart_by_product d p")
    case None
    then show ?thesis
      using assms
      by (simp add: AddOrIncrement cart_post_absent one_line_per_product_def select_None_iff)
  next
    case (Some row)
    then show ?thesis
      using assms
      by (simp add: AddOrIncrement cart_post_found one_line_per_product_def increment_columns)
  qed
next
  case (SetQuantity i q)
  then show ?thesis
    using assms by (simp add: cart_put_ok one_line_per_product_def update_quantity_columns)
next
  case (Remove i)
  then show ?thesis
    using assms
    by (simp add: cart_delete_ok one_line_per_product_def delete_cart_def distinct_map_filter)
qed

lemma run_ops_invariant:
  "one_line_per_product d \<Longrightarrow> one_line_per_product (run_ops d ops)"
  unfolding run_ops_def
  by (induction ops arbitrary: d) (simp_all add: apply_op_invariant)

lemma filter_product_short:
  "distinct (map c_product_id rows) \<Longrightarrow>
   length (filter (\<lambda>r. c_product_id r = p) rows) \<le> 1"
  for rows :: "cart_row list"
proof (induction rows)
  case Nil
  then show ?case by simp
next
  case (Cons r rows)
  show ?case
  proof (cases "c_product_id r = p")
    case True
    with Cons.prems have "p \<notin> c_product_id ` set rows"
      by simp
    then have "filter (\<lambda>r. c_product_id r = p) rows = []"
      by (auto simp: filter_empty_conv)
    with True show ?thesis by simp
  next
    case False
    with Cons show ?thesis by simp
  qed
qed

lemma quantities_short:
  assumes "one_line_per_product d"
  shows "length (quantities_of d p) \<le> 1"
  using filter_product_short [of "cart d" p] assms
  by (simp add: one_line_per_product_def quantities_of_def)

lemma quantities_Nil_iff: "quantities_of d p = [] \<longleftrightarrow> select_cart_by_product d p = None"
  by (auto simp: quantities_of_def select_None_iff filter_empty_conv)

lemma add_same_product:
  assumes "one_line_per_product d"
  shows "quantities_of (apply_op d (AddOrIncrement p q)) p = [sum_list (quantities_of d p) + q]"
proof (cases "select_cart_by_product d p")
  case None
  then have "quantities_of d p = []" by (simp add: quantities_Nil_iff)
  then show ?thesis
    using None by (simp add: cart_post_absent) (simp add: quantities_of_def)
next
  case (Some row)
  then have "quantities_of d p \<noteq> []" by (simp add: quantities_Nil_iff)
  with quantities_short [OF assms, of p] obtain c where c: "quantities_of d p = [c]"
    by (cases "quantities_of d p") auto
  show ?thesis
    by (simp add: cart_post_found [OF Some] quantities_of_increment c)
qed

lemma add_other_product:
  assumes "p' \<noteq> p"
  shows "quantities_of (apply_op d (AddOrIncrement p' q)) p = quantities_of d p"
proof (cases "select_cart_by_product d p'")
  case None
  then show ?thesis
    using assms by (simp add: cart_post_absent) (simp add: quantities_of_def)
next
  case (Some row)
  have "map c_quantity (filter (\<lambda>r. c_product_id r = p)
          (map (\<lambda>r. if c_product_id r = p' then r\<lparr>c_quantity := c_quantity r + q\<rparr> else r) rows))
        = map c_quantity (filter (\<lambda>r. c_product_id r = p) rows)"
    for rows :: "cart_row list"
    using assms by (induction rows) auto
  from this [of "cart d"] show ?thesis
    by (simp add: cart_post_found [OF Some] quantities_of_def update_cart_increment_def)
qed

lemma set_untouched:
  assumes "\<not> touches d (SetQuantity i q) p"
  shows "quantities_of (apply_op d (SetQuantity i q)) p = quantities_of d p"
proof -
  have "\<not> list_ex (\<lambda>r. c_id r = i \<and> c_product_id r = p) rows \<Longrightarrow>
        map c_quantity (filter (\<lambda>r. c_product_id r = p)
          (map (\<lambda>r. if c_id r = i then r\<lparr>c_quantity := q\<rparr> else r) rows))
        = map c_quantity (filter (\<lambda>r. c_product_id r = p) rows)"
    for rows :: "cart_row list"
    by (induction rows) auto
  from this [of "cart d"] assms show ?thesis
    by (simp add: cart_put_ok quantities_of_def update_cart_quantity_def)
qed

lemma remove_untouched:
  assumes "\<not> touches d (Remove i) p"
  shows "quantities_of (apply_op d (Remove i)) p = quantities_of d p"
proof -
  have "\<not> list_ex (\<lambda>r. c_id r = i \<and> c_product_id r = p) rows \<Longrightarrow>
        map c_quantity (filter (\<lambda>r. c_product_id r = p) (filter (\<lambda>r. c_id r \<noteq> i) rows))
        = map c_quantity (filter (\<lambda>r. c_product_id r = p) rows)"
    for rows :: "cart_row list"
    by (induction rows) auto
  from this [of "cart d"] assms show ?thesis
    by (simp add: cart_delete_ok quantities_of_def delete_cart_def)
qed

lemma only_added_quantities:
  "one_line_per_product d \<Longrightarrow> only_added d ops p \<Longrightarrow>
   quantities_of (run_ops d ops) p =
     (if quantities_of d p = [] \<and> increments ops p = [] then []
      else [sum_list (quantities_of d p) + sum_list (increments ops p)])"
proof (induction ops arbitrary: d)
  case Nil
  from quantities_short [OF Nil.prems(1), of p] show ?case
    by (cases "quantities_of d p") (simp_all add: run_ops_def)
next
  case (Cons x ops)
  have inv: "one_line_per_product (apply_op d x)"
    using Cons.prems(1) by (rule apply_op_invariant)
  have rest: "only_added (apply_op d x) ops p" and nt: "\<not> touches d x p"
    using Cons.prems(2) by simp_all
  have run: "run_ops d (y # ops) = run_ops (apply_op d y) ops" for y
    by (simp add: run_ops_def)
  note IH = Cons.IH [OF inv rest]
  show ?case
  proof (cases x)
    case (AddOrIncrement p' q)
    show ?thesis
    proof (cases "p' = p")
      case True
      then show ?thesis
        using IH add_same_product [OF Cons.prems(1), of p q]
        by (simp add: run AddOrIncrement)
    next
      case False
      then show ?thesis
        using IH add_other_product [OF False, of d q]
        by (simp add: run AddOrIncrement)
    qed
  next
    case (SetQuantity i q)
    then show ?thesis
      using IH set_untouched [of d i q p] nt by (simp add: run)
  next
    case (Remove i)
    then show ?thesis
      using IH remove_untouched [of d i p] nt by (simp add: run)
  qed
qed

lemma empty_invariant: "cart d = [] \<Longrightarrow> one_line_per_product d"
  by (simp add: one_line_per_product_def)

text \<open>
  Claim C8. After any sequence of \<open>AddOrIncrement\<close>, \<open>SetQuantity\<close> and \<open>Remove\<close>
  calls, each handled before the next on a store whose statements run, starting from
  an empty cart: no two lines have the same product, so every product has at most one
  line; and a product that no \<open>SetQuantity\<close> or \<open>Remove\<close> of the sequence touched has
  no line when it was never added, and otherwise exactly one line, whose quantity is
  the sum of the increments added to it.
\<close>

theorem C8_sequential_invariant:
  assumes "cart d = []"
  shows "distinct (map c_product_id (cart (run_ops d ops))) \<and>
   length (filter (\<lambda>r. c_product_id r = p) (cart (run_ops d ops))) \<le> 1 \<and>
   (only_added d ops p \<longrightarrow>
      quantities_of (run_ops d ops) p =
        (if increments ops p = [] then [] else [sum_list (increments ops p)]))"
proof -
  have start: "one_line_per_product d"
    using assms by (rule empty_invariant)
  have inv: "one_line_per_product (run_ops d ops)"
    using start by (rule run_ops_invariant)
  have "quantities_of d p = []"
    using assms by (simp add: quantities_of_def)
  with only_added_quantities [OF start, of ops p] quantities_short [OF inv, of p]
  show ?thesis
    using inv by (simp add: one_line_per_product_def quantities_of_def)
qed

theorem C8_sequential_invariant_witness:
  "cart (empty_cart catalog1) = [] \<and>
   only_added (empty_cart catalog1)
     [AddOrIncrement 1 2, AddOrIncrement 2 1, AddOrIncrement 1 3, SetQuantity 2 9, Remove 2] 1 \<and>
   increments
     [AddOrIncrement 1 2, AddOrIncrement 2 1, AddOrIncrement 1 3, SetQuantity 2 9, Remove 2] 1
     = [2, 3] \<and>
   quantities_of (run_ops (empty_cart catalog1)
     [AddOrIncrement 1 2, AddOrIncrement 2 1, AddOrIncrement 1 3, SetQuantity 2 9, Remove 2]) 1
     = [5]"
proof -
  have c: "cart (empty_cart catalog1) = []"
    by (simp add: empty_cart_def)
  have h: "only_added (empty_cart catalog1)
     [AddOrIncrement 1 2, AddOrIncrement 2 1, AddOrIncrement 1 3, SetQuantity 2 9, Remove 2] 1"
    by (simp add: eval_defs)
  have i: "increments
     [AddOrIncrement 1 2, AddOrIncrement 2 1, AddOrIncrement 1 3, SetQuantity 2 9, Remove 2] 1
     = [2, 3]"
    by simp
  from C8_sequential_invariant [OF c, of
     "[AddOrIncrement 1 2, AddOrIncrement 2 1, AddOrIncrement 1 3, SetQuantity 2 9, Remove 2]" 1]
    h
  have "quantities_of (run_ops (empty_cart catalog1)
     [AddOrIncrement 1 2, AddOrIncrement 2 1, AddOrIncrement 1 3, SetQuantity 2 9, Remove 2]) 1
     = (if increments
     [AddOrIncrement 1 2, AddOrIncrement 2 1, AddOrIncrement 1 3, SetQuantity 2 9, Remove 2] 1 = []
        then [] else [sum_list (increments
     [AddOrIncrement 1 2, AddOrIncrement 2 1, AddOrIncrement 1 3, SetQuantity 2 9, Remove 2] 1)])"
    by blast
  then have "quantities_of (run_ops (empty_cart catalog1)
     [AddOrIncrement 1 2, AddOrIncrement 2 1, AddOrIncrement 1 3, SetQuantity 2 9, Remove 2]) 1
     = [5]"
    by (simp only: i) simp
  with c h i show ?thesis
    by blast
qed

subsection \<open>Calls in flight together\<close>

lemma request_two_steps:
  assumes "i < length rs" and "rs ! i = Received p q"
  shows "run_schedule d rs (i # i # sched)
     = run_schedule (fst (cart_post None None d p q))
         (rs[i := Responded (snd (cart_post None None d p q))]) sched"
  using assms by (simp add: cart_post_def split: prod.splits)

lemma serial_Suc: "serial k (Suc n) = k # k # serial (Suc k) n"
  by (simp add: serial_def upt_conv_Cons)

lemma serial_run:
  "fst (run_schedule d (answered @ map (Received p) qs) (serial (length answered) (length qs)))
     = run_ops d (map (AddOrIncrement p) qs)"
proof (induction qs arbitrary: d answered)
  case Nil
  then show ?case by (simp add: serial_def run_ops_def)
next
  case (Cons q qs)
  let ?rs = "answered @ map (Received p) (q # qs)"
  let ?r = "Responded (snd (cart_post None None d p q))"
  have i: "length answered < length ?rs" and r: "?rs ! length answered = Received p q"
    by simp_all
  have u: "?rs[length answered := ?r] = (answered @ [?r]) @ map (Received p) qs"
    by simp
  have len: "length (q # qs) = Suc (length qs)"
    by simp
  have "run_schedule d ?rs (serial (length answered) (length (q # qs)))
      = run_schedule d ?rs
          (length answered # length answered # serial (Suc (length answered)) (length qs))"
    by (simp only: len serial_Suc)
  also have "\<dots> = run_schedule (fst (cart_post None None d p q)) (?rs[length answered := ?r])
          (serial (Suc (length answered)) (length qs))"
    by (rule request_two_steps [OF i r])
  also have "\<dots> = run_schedule (fst (cart_post None None d p q))
          ((answered @ [?r]) @ map (Received p) qs) (serial (length (answered @ [?r])) (length qs))"
    by (simp only: u length_append_singleton)
  finally have "fst (run_schedule d ?rs (serial (length answered) (length (q # qs))))
      = fst (run_schedule (fst (cart_post None None d p q))
          ((answered @ [?r]) @ map (Received p) qs) (serial (length (answered @ [?r])) (length qs)))"
    by (rule arg_cong)
  also have "\<dots> = run_ops (fst (cart_post None None d p q)) (map (AddOrIncrement p) qs)"
    by (rule Cons.IH)
  finally show ?case
    by (simp add: run_ops_def)
qed

lemma adds_only_added: "only_added d (map (AddOrIncrement p) qs) p'"
  by (induction qs arbitrary: d) simp_all

lemma adds_increments: "increments (map (AddOrIncrement p) qs) p = qs"
  by (induction qs) simp_all

text \<open>
  Claim C9 asks for one line and the sum of the increments under concurrent
  execution. Two calls for product 1, with quantities 2 and 3, on the empty cart: when
  both \<open>SELECT\<close>s run before either write, both calls insert, and the cart holds two
  lines of product 1. A third call, for quantity 4, then finds a line and its \<open>UPDATE\<close>
  adds 4 to both, so neither line holds the sum 9, nor do the two together.
\<close>

theorem C9_interleaved_adds_counterexample:
  "run_schedule (empty_cart catalog1) [Received 1 2, Received 1 3] [0, 1, 0, 1]
     = (\<lparr>products = catalog1,
         cart = [\<lparr>c_id = 1, c_product_id = 1, c_quantity = 2\<rparr>,
                 \<lparr>c_id = 2, c_product_id = 1, c_quantity = 3\<rparr>], cart_seq = 2\<rparr>,
        [Responded (Json (1, ''Added to cart'')), Responded (Json (2, ''Added to cart''))]) \<and>
   quantities_of (fst (run_schedule (empty_cart catalog1) [Received 1 2, Received 1 3]
     [0, 1, 0, 1])) 1 = [2, 3] \<and>
   quantities_of (fst (run_schedule (empty_cart catalog1)
     [Received 1 2, Received 1 3, Received 1 4] [0, 1, 0, 1, 2, 2])) 1 = [6, 7]"
  by (simp add: eval_defs quantities_of_def)

lemma serial_adds:
  assumes "one_line_per_product d" and "qs \<noteq> []"
  shows "quantities_of
           (fst (run_schedule d (map (Received p) qs) (serial 0 (length qs)))) p
         = [sum_list (quantities_of d p) + sum_list qs]"
proof -
  have "fst (run_schedule d (map (Received p) qs) (serial 0 (length qs)))
      = run_ops d (map (AddOrIncrement p) qs)"
    using serial_run [of d "[]" p qs] by simp
  then show ?thesis
    using only_added_quantities [OF assms(1) adds_only_added, of p qs p] assms(2)
    by (simp add: adds_increments)
qed

lemma sum_list_map_update:
  fixes f :: "'a \<Rightarrow> int"
  shows "i < length xs \<Longrightarrow>
         sum_list (map f (xs[i := x])) = sum_list (map f xs) - f (xs ! i) + f x"
proof (induction xs arbitrary: i)
  case Nil
  then show ?case by simp
next
  case (Cons y ys)
  then show ?case by (cases i) simp_all
qed

lemma holds_absent_nonneg: "0 \<le> holds_absent r"
  by (cases r) simp_all

lemma absent_held_nonneg: "0 \<le> absent_held rs"
  unfolding absent_held_def by (induction rs) (simp_all add: holds_absent_nonneg)

lemma absent_held_zero:
  "absent_held rs = 0 \<Longrightarrow> r \<in> set rs \<Longrightarrow> holds_absent r = 0"
  unfolding absent_held_def
proof (induction rs)
  case Nil
  then show ?case by simp
next
  case (Cons x xs)
  have "0 \<le> holds_absent x" "0 \<le> sum_list (map holds_absent xs)"
    using holds_absent_nonneg [of x] absent_held_nonneg [of xs] by (simp_all add: absent_held_def)
  with Cons.prems(1) have "holds_absent x = 0" "sum_list (map holds_absent xs) = 0"
    by simp_all
  with Cons show ?case by auto
qed

lemma run_schedule_length: "length (snd (run_schedule d rs sched)) = length rs"
  by (induction sched arbitrary: d rs) (simp_all split: prod.splits)

lemma line_step:
  assumes inv: "one_line_per_product d"
    and r: "for_product p r" "holds_absent r = 0"
    and q: "quantities_of d p = [c]"
    and step: "request_step d r = (d', r')"
  shows "one_line_per_product d' \<and> for_product p r' \<and> holds_absent r' = 0 \<and>
         quantities_of d' p = [c + pending_quantity r - pending_quantity r'] \<and>
         reads_absent d r = 0"
proof (cases r)
  case (Received p' x)
  with r(1) have p': "p' = p" by simp
  from q have "select_cart_by_product d p \<noteq> None"
    by (simp add: quantities_Nil_iff [symmetric])
  with step inv q show ?thesis
    by (auto simp: Received p' post_select_def)
next
  case (Selected row p' x)
  with r have p': "p' = p" and "row \<noteq> None" by (simp_all split: if_splits)
  then obtain r0 where row: "row = Some r0" by auto
  from step have d': "d' = update_cart_increment d x p" and r': "r' = Responded (Json (c_id r0, ''Cart updated''))"
    by (simp_all add: Selected p' row post_callback_def)
  have "one_line_per_product d'"
    using inv by (simp add: d' one_line_per_product_def increment_columns)
  then show ?thesis
    by (simp add: Selected r' d' quantities_of_increment q)
next
  case (Responded res)
  with step inv q show ?thesis by auto
qed

lemma line_run:
  assumes "one_line_per_product d"
    and "\<forall>r \<in> set rs. for_product p r \<and> holds_absent r = 0"
    and "quantities_of d p = [c]"
  shows "quantities_of (fst (run_schedule d rs sched)) p
           = [c + pending rs - pending (snd (run_schedule d rs sched))] \<and>
         absent_reads d rs sched = 0"
  using assms
proof (induction sched arbitrary: d rs c)
  case Nil
  then show ?case by simp
next
  case (Cons i sched)
  show ?case
  proof (cases "i < length rs")
    case False
    with Cons.IH [OF Cons.prems] show ?thesis by simp
  next
    case True
    obtain d' r' where step: "request_step d (rs ! i) = (d', r')"
      by (cases "request_step d (rs ! i)")
    have mem: "rs ! i \<in> set rs"
      using True by simp
    from line_step [OF Cons.prems(1) _ _ Cons.prems(3) step, of ] Cons.prems(2) mem
    have inv': "one_line_per_product d'" and r': "for_product p r'" "holds_absent r' = 0"
      and q': "quantities_of d' p = [c + pending_quantity (rs ! i) - pending_quantity r']"
      and z: "reads_absent d (rs ! i) = 0"
      by blast+
    have all': "\<forall>r \<in> set (rs[i := r']). for_product p r \<and> holds_absent r = 0"
      using Cons.prems(2) r' set_update_subset_insert [of rs i r'] by blast
    have pend: "pending (rs[i := r']) = pending rs - pending_quantity (rs ! i) + pending_quantity r'"
      unfolding pending_def using True by (rule sum_list_map_update)
    from Cons.IH [OF inv' all' q']
    have "quantities_of (fst (run_schedule d' (rs[i := r']) sched)) p
           = [c + pending_quantity (rs ! i) - pending_quantity r' + pending (rs[i := r'])
              - pending (snd (run_schedule d' (rs[i := r']) sched))]"
      and "absent_reads d' (rs[i := r']) sched = 0"
      by simp_all
    then show ?thesis
      using True step z by (simp add: pend)
  qed
qed

lemma no_line_step:
  assumes inv: "one_line_per_product d"
    and r: "for_product p r" "\<not> responded r" "\<not> holds_row r"
    and q: "quantities_of d p = []"
    and step: "request_step d r = (d', r')"
  shows "(holds_absent r = 0 \<and> d' = d \<and> for_product p r' \<and> \<not> responded r' \<and> \<not> holds_row r' \<and>
            holds_absent r' = 1 \<and> reads_absent d r = 1 \<and>
            pending_quantity r' = pending_quantity r) \<or>
         (holds_absent r = 1 \<and> one_line_per_product d' \<and> for_product p r' \<and>
            holds_absent r' = 0 \<and> reads_absent d r = 0 \<and> pending_quantity r' = 0 \<and>
            quantities_of d' p = [pending_quantity r])"
proof (cases r)
  case (Received p' x)
  with r(1) have p': "p' = p" by simp
  from q have "select_cart_by_product d p = None"
    by (simp add: quantities_Nil_iff)
  with step show ?thesis
    by (auto simp: Received p' post_select_def)
next
  case (Selected row p' x)
  with r have p': "p' = p" and row: "row = None" by simp_all
  from q have n: "select_cart_by_product d p = None"
    by (simp add: quantities_Nil_iff)
  from step have d': "d' = fst (insert_cart d p x)"
    and r': "r' = Responded (Json (snd (insert_cart d p x), ''Added to cart''))"
    by (simp_all add: Selected p' row post_callback_def split: prod.splits)
  have c: "cart d' = cart d @ [\<lparr>c_id = next_rowid d, c_product_id = p, c_quantity = x\<rparr>]"
    by (simp add: d' insert_cart_def Let_def)
  have "one_line_per_product d'"
    using inv n by (simp add: one_line_per_product_def c select_None_iff)
  moreover have "quantities_of d' p = [x]"
    using q by (simp add: quantities_of_def c)
  ultimately show ?thesis
    by (simp add: Selected row r')
next
  case (Responded res)
  with r(2) show ?thesis by simp
qed

lemma reads_absent_nonneg: "0 \<le> reads_absent d r"
  by (cases r) simp_all

lemma absent_reads_nonneg: "0 \<le> absent_reads d rs sched"
  by (induction sched arbitrary: d rs)
     (auto simp: reads_absent_nonneg split: prod.splits intro: add_nonneg_nonneg)

lemma no_line_run:
  assumes "one_line_per_product d"
    and "\<forall>r \<in> set rs. for_product p r \<and> \<not> responded r \<and> \<not> holds_row r"
    and "quantities_of d p = []"
    and "absent_held rs + absent_reads d rs sched \<le> 1"
  shows "(quantities_of (fst (run_schedule d rs sched)) p = [] \<and>
          (\<forall>r \<in> set (snd (run_schedule d rs sched)). \<not> responded r)) \<or>
         quantities_of (fst (run_schedule d rs sched)) p
           = [pending rs - pending (snd (run_schedule d rs sched))]"
  using assms
proof (induction sched arbitrary: d rs)
  case Nil
  then show ?case by simp
next
  case (Cons i sched)
  show ?case
  proof (cases "i < length rs")
    case False
    with Cons.IH [OF Cons.prems(1-3)] Cons.prems(4) show ?thesis by simp
  next
    case True
    obtain d' r' where step: "request_step d (rs ! i) = (d', r')"
      by (cases "request_step d (rs ! i)")
    have mem: "rs ! i \<in> set rs"
      using True by simp
    then have ri: "for_product p (rs ! i)" "\<not> responded (rs ! i)" "\<not> holds_row (rs ! i)"
      using Cons.prems(2) by blast+
    have run: "run_schedule d rs (i # sched) = run_schedule d' (rs[i := r']) sched"
      using True step by simp
    have budget: "absent_held rs + (reads_absent d (rs ! i) + absent_reads d' (rs[i := r']) sched) \<le> 1"
      using Cons.prems(4) True step by simp
    have held: "absent_held (rs[i := r']) = absent_held rs - holds_absent (rs ! i) + holds_absent r'"
      unfolding absent_held_def using True by (rule sum_list_map_update)
    have pend: "pending (rs[i := r']) = pending rs - pending_quantity (rs ! i) + pending_quantity r'"
      unfolding pending_def using True by (rule sum_list_map_update)
    from no_line_step [OF Cons.prems(1) ri Cons.prems(3) step]
    show ?thesis
    proof (elim disjE conjE)
      assume a: "holds_absent (rs ! i) = 0" "d' = d" "for_product p r'" "\<not> responded r'"
        "\<not> holds_row r'" "holds_absent r' = 1" "reads_absent d (rs ! i) = 1"
        "pending_quantity r' = pending_quantity (rs ! i)"
      have all': "\<forall>r \<in> set (rs[i := r']). for_product p r \<and> \<not> responded r \<and> \<not> holds_row r"
        using Cons.prems(2) a(3-5) set_update_subset_insert [of rs i r'] by blast
      have b': "absent_held (rs[i := r']) + absent_reads d (rs[i := r']) sched \<le> 1"
        using budget a(1,2,6,7) held by simp
      from Cons.IH [OF Cons.prems(1) all' Cons.prems(3) b']
      show ?thesis
        unfolding run a(2) by (simp add: pend a(8))
    next
      assume b: "holds_absent (rs ! i) = 1" "one_line_per_product d'" "for_product p r'"
        "holds_absent r' = 0" "reads_absent d (rs ! i) = 0" "pending_quantity r' = 0"
        "quantities_of d' p = [pending_quantity (rs ! i)]"
      have "absent_held (rs[i := r']) = absent_held rs - 1"
        using held b(1,4) by simp
      moreover have "0 \<le> absent_held (rs[i := r'])"
        by (rule absent_held_nonneg)
      moreover have "absent_held rs \<le> 1"
        using budget b(5) absent_reads_nonneg [of d' "rs[i := r']" sched] by linarith
      ultimately have zero: "absent_held (rs[i := r']) = 0"
        by linarith
      have all': "\<forall>r \<in> set (rs[i := r']). for_product p r \<and> holds_absent r = 0"
      proof
        fix r assume r: "r \<in> set (rs[i := r'])"
        then have "r = r' \<or> r \<in> set rs"
          using set_update_subset_insert [of rs i r'] by blast
        then have "for_product p r"
          using b(3) Cons.prems(2) by blast
        moreover have "holds_absent r = 0"
          using zero r by (rule absent_held_zero)
        ultimately show "for_product p r \<and> holds_absent r = 0" ..
      qed
      from line_run [OF b(2) all' b(7), of sched]
      have "quantities_of (fst (run_schedule d' (rs[i := r']) sched)) p
           = [pending_quantity (rs ! i) + pending (rs[i := r'])
              - pending (snd (run_schedule d' (rs[i := r']) sched))]"
        by simp
      then show ?thesis
        unfolding run by (simp add: pend b(6))
    qed
  qed
qed

lemma pending_received: "pending (map (Received p) qs) = sum_list qs"
  unfolding pending_def by (induction qs) simp_all

lemma pending_responded: "list_all responded rs \<Longrightarrow> pending rs = 0"
  unfolding pending_def
proof (induction rs)
  case Nil
  then show ?case by simp
next
  case (Cons r rs)
  then show ?case by (cases r) simp_all
qed

lemma absent_held_received: "absent_held (map (Received p) qs) = 0"
  unfolding absent_held_def by (induction qs) simp_all

text \<open>
  Claim C9, as the code has it. Calls of \<open>AddOrIncrement\<close> for one product, on a cart
  with at most one line per product and a store whose statements run, with their
  statements interleaved in any order in which at most one \<open>SELECT\<close> finds the line
  absent: once all calls have answered, the product has exactly one line, and its
  quantity is the quantity it had (0 without a line, as from the empty cart) plus the
  sum of all increments. When the product has its line already, no \<open>SELECT\<close> finds it
  absent, so this holds of every interleaving. Only two calls that both read \<open>line
  absent\<close> both insert.
\<close>

theorem C9_interleaved_adds:
  assumes "one_line_per_product d" and "qs \<noteq> []"
  shows "(quantities_of d p \<noteq> [] \<longrightarrow> absent_reads d (map (Received p) qs) sched = 0) \<and>
         (absent_reads d (map (Received p) qs) sched \<le> 1 \<and>
          list_all responded (snd (run_schedule d (map (Received p) qs) sched)) \<longrightarrow>
          quantities_of (fst (run_schedule d (map (Received p) qs) sched)) p
            = [sum_list (quantities_of d p) + sum_list qs])"
proof (cases "quantities_of d p")
  case Nil
  have all: "\<forall>r \<in> set (map (Received p) qs). for_product p r \<and> \<not> responded r \<and> \<not> holds_row r"
    by auto
  show ?thesis
  proof (intro conjI impI)
    assume "quantities_of d p \<noteq> []"
    with Nil show "absent_reads d (map (Received p) qs) sched = 0" by simp
  next
    assume h: "absent_reads d (map (Received p) qs) sched \<le> 1 \<and>
          list_all responded (snd (run_schedule d (map (Received p) qs) sched))"
    let ?rs' = "snd (run_schedule d (map (Received p) qs) sched)"
    have "?rs' \<noteq> []"
      using run_schedule_length [of d "map (Received p) qs" sched] assms(2) by auto
    then obtain r where r: "r \<in> set ?rs'"
      by (cases ?rs') auto
    with h have "responded r"
      by (simp add: list_all_iff)
    with r have some: "\<not> (\<forall>r \<in> set ?rs'. \<not> responded r)"
      by blast
    have b: "absent_held (map (Received p) qs) + absent_reads d (map (Received p) qs) sched \<le> 1"
      using h by (simp add: absent_held_received)
    from no_line_run [OF assms(1) all Nil b] some
    have "quantities_of (fst (run_schedule d (map (Received p) qs) sched)) p
           = [pending (map (Received p) qs) - pending ?rs']"
      by blast
    then show "quantities_of (fst (run_schedule d (map (Received p) qs) sched)) p
            = [sum_list (quantities_of d p) + sum_list qs]"
      using h by (simp add: pending_received pending_responded Nil)
  qed
next
  case (Cons c cs)
  with quantities_short [OF assms(1), of p] have q: "quantities_of d p = [c]"
    by simp
  have all: "\<forall>r \<in> set (map (Received p) qs). for_product p r \<and> holds_absent r = 0"
    by auto
  from line_run [OF assms(1) all q, of sched]
  have 1: "quantities_of (fst (run_schedule d (map (Received p) qs) sched)) p
           = [c + pending (map (Received p) qs)
              - pending (snd (run_schedule d (map (Received p) qs) sched))]"
    and 2: "absent_reads d (map (Received p) qs) sched = 0"
    by simp_all
  show ?thesis
    using 1 2 by (simp add: pending_received pending_responded q)
qed

theorem C9_interleaved_adds_witness:
  "one_line_per_product (empty_cart catalog1) \<and> [2, 3, 4] \<noteq> ([] :: int list) \<and>
   absent_reads (empty_cart catalog1) (map (Received 1) [2, 3, 4]) [0, 0, 1, 2, 2, 1] \<le> 1 \<and>
   list_all responded
     (snd (run_schedule (empty_cart catalog1) (map (Received 1) [2, 3, 4]) [0, 0, 1, 2, 2, 1])) \<and>
   quantities_of
     (fst (run_schedule (empty_cart catalog1) (map (Received 1) [2, 3, 4]) [0, 0, 1, 2, 2, 1])) 1
     = [sum_list (quantities_of (empty_cart catalog1) 1) + sum_list [2, 3, 4]] \<and>
   one_line_per_product
     \<lparr>products = catalog1, cart = [\<lparr>c_id = 1, c_product_id = 1, c_quantity = 1\<rparr>], cart_seq = 1\<rparr> \<and>
   [2, 3] \<noteq> ([] :: int list) \<and>
   quantities_of
     \<lparr>products = catalog1, cart = [\<lparr>c_id = 1, c_product_id = 1, c_quantity = 1\<rparr>], cart_seq = 1\<rparr> 1
     \<noteq> [] \<and>
   absent_reads
     \<lparr>products = catalog1, cart = [\<lparr>c_id = 1, c_product_id = 1, c_quantity = 1\<rparr>], cart_seq = 1\<rparr>
     (map (Received 1) [2, 3]) [0, 1, 0, 1] = 0"
proof -
  have h: "one_line_per_product (empty_cart catalog1)"
    by (simp add: one_line_per_product_def empty_cart_def)
  have n: "[2, 3, 4] \<noteq> ([] :: int list)"
    by simp
  have a: "absent_reads (empty_cart catalog1) (map (Received 1) [2, 3, 4]) [0, 0, 1, 2, 2, 1] \<le> 1"
    by (simp add: eval_defs)
  have r: "list_all responded
     (snd (run_schedule (empty_cart catalog1) (map (Received 1) [2, 3, 4]) [0, 0, 1, 2, 2, 1]))"
    by (simp add: eval_defs)
  have h2: "one_line_per_product
     \<lparr>products = catalog1, cart = [\<lparr>c_id = 1, c_product_id = 1, c_quantity = 1\<rparr>], cart_seq = 1\<rparr>"
    by (simp add: one_line_per_product_def)
  have n2: "[2, 3] \<noteq> ([] :: int list)"
    by simp
  have q2: "quantities_of
     \<lparr>products = catalog1, cart = [\<lparr>c_id = 1, c_product_id = 1, c_quantity = 1\<rparr>], cart_seq = 1\<rparr> 1
     \<noteq> []"
    by (simp add: quantities_of_def)
  from C9_interleaved_adds [OF h n, of 1 "[0, 0, 1, 2, 2, 1]"] a r
  have 1: "quantities_of
     (fst (run_schedule (empty_cart catalog1) (map (Received 1) [2, 3, 4]) [0, 0, 1, 2, 2, 1])) 1
     = [sum_list (quantities_of (empty_cart catalog1) 1) + sum_list [2, 3, 4]]"
    by blast
  from C9_interleaved_adds [OF h2 n2, of 1 "[0, 1, 0, 1]"] q2
  have 2: "absent_reads
     \<lparr>products = catalog1, cart = [\<lparr>c_id = 1, c_product_id = 1, c_quantity = 1\<rparr>], cart_seq = 1\<rparr>
     (map (Received 1) [2, 3]) [0, 1, 0, 1] = 0"
    by blast
  from h n a r 1 h2 n2 q2 2 show ?thesis
    by blast
qed

section \<open>The total of the cart page\<close>

subsection \<open>Rounding to binary64\<close>

lemma pow2_pos: "0 < pow2 k"
  by (simp add: pow2_def)

lemma pow2_powi: "pow2 k = 2 powi k"
  by (simp add: pow2_def power_int_def inverse_eq_divide power_one_over [symmetric]
       del: power_one_over)

lemma pow2_strict_mono: "a < b \<Longrightarrow> pow2 a < pow2 b"
  by (simp add: pow2_powi power_int_strict_increasing)

lemma pow2_mono: "a \<le> b \<Longrightarrow> pow2 a \<le> pow2 b"
  by (simp add: pow2_powi power_int_increasing)

lemma pow2_less_iff: "pow2 a < pow2 b \<longleftrightarrow> a < b"
  using pow2_strict_mono [of a b] pow2_mono [of b a] by (auto simp: not_less [symmetric])

lemma pow2_le_iff: "pow2 a \<le> pow2 b \<longleftrightarrow> a \<le> b"
  using pow2_less_iff [of b a] by (auto simp: not_less [symmetric])

lemma pow2_nonneg_exp: "0 \<le> k \<Longrightarrow> pow2 k = 2 ^ nat k"
  by (simp add: pow2_def)

lemma pow2_neg_exp: "0 \<le> k \<Longrightarrow> pow2 (- k) = 1 / 2 ^ nat k"
  by (cases "k = 0") (simp_all add: pow2_def)

lemma pow2_add: "pow2 (a + b) = pow2 a * pow2 b"
  by (simp add: pow2_powi power_int_add)

lemma ilog2_bounds:
  assumes "0 < x"
  shows "pow2 (ilog2 x) \<le> x \<and> x < pow2 (ilog2 x + 1)"
proof (cases "1 \<le> x")
  case True
  let ?n = "\<lfloor>x\<rfloor>"
  have n: "0 < ?n" using True by simp
  from bitlen_bounds [OF n]
  have lo: "2 ^ nat (bitlen ?n - 1) \<le> ?n" and hi: "?n < 2 ^ nat (bitlen ?n)"
    by simp_all
  have b: "1 \<le> bitlen ?n"
    using n bitlen_eq_zero_iff [of ?n] bitlen_nonneg [of ?n] by linarith
  have "(of_int (2 ^ nat (bitlen ?n - 1)) :: rat) \<le> of_int ?n"
    using lo by (simp only: of_int_le_iff)
  also have "\<dots> \<le> x" by simp
  finally have 1: "pow2 (bitlen ?n - 1) \<le> x"
    using b by (simp add: pow2_nonneg_exp)
  have "?n + 1 \<le> 2 ^ nat (bitlen ?n)" using hi by simp
  then have "(of_int (?n + 1) :: rat) \<le> of_int (2 ^ nat (bitlen ?n))"
    by (simp only: of_int_le_iff)
  moreover have "x < of_int (?n + 1)"
    by linarith
  ultimately have 2: "x < pow2 (bitlen ?n)"
    using b by (simp add: pow2_nonneg_exp)
  from 1 2 True show ?thesis
    by (simp add: ilog2_def)
next
  case False
  let ?y = "1 / x"
  let ?n = "\<lceil>?y\<rceil> - 1"
  have y: "1 < ?y" using False assms by simp
  have n: "0 < ?n" using y by linarith
  have ny: "of_int ?n < ?y" "?y \<le> of_int ?n + 1"
    by linarith+
  from bitlen_bounds [OF n]
  have lo: "2 ^ nat (bitlen ?n - 1) \<le> ?n" and hi: "?n < 2 ^ nat (bitlen ?n)"
    by simp_all
  have b: "1 \<le> bitlen ?n"
    using n bitlen_eq_zero_iff [of ?n] bitlen_nonneg [of ?n] by linarith
  have "(of_int (2 ^ nat (bitlen ?n - 1)) :: rat) \<le> of_int ?n"
    using lo by (simp only: of_int_le_iff)
  with ny(1) have "(2 :: rat) ^ nat (bitlen ?n - 1) < ?y"
    by simp
  then have "x * 2 ^ nat (bitlen ?n - 1) < 1"
    using assms by (simp add: field_simps)
  then have lt: "x < 1 / 2 ^ nat (bitlen ?n - 1)"
    by (simp add: field_simps)
  have e: "pow2 (- (bitlen ?n - 1)) = 1 / 2 ^ nat (bitlen ?n - 1)"
    by (rule pow2_neg_exp) (use b in simp)
  have "x < pow2 (- (bitlen ?n - 1))"
    unfolding e by (rule lt)
  then have 2: "x < pow2 (- bitlen ?n + 1)"
    by (simp add: algebra_simps)
  have "\<lceil>?y\<rceil> \<le> 2 ^ nat (bitlen ?n)" using hi by simp
  then have "(of_int \<lceil>?y\<rceil> :: rat) \<le> of_int (2 ^ nat (bitlen ?n))"
    by (simp only: of_int_le_iff)
  moreover have "?y \<le> of_int \<lceil>?y\<rceil>"
    by (rule le_of_int_ceiling)
  ultimately have "?y \<le> of_int (2 ^ nat (bitlen ?n))"
    by (rule order_trans [rotated])
  then have "?y \<le> 2 ^ nat (bitlen ?n)"
    by simp
  then have "1 \<le> x * 2 ^ nat (bitlen ?n)"
    using assms by (simp add: field_simps)
  then have "1 / 2 ^ nat (bitlen ?n) \<le> x"
    by (simp add: field_simps)
  then have 1: "pow2 (- bitlen ?n) \<le> x"
    using b by (simp add: pow2_neg_exp)
  from 1 2 False show ?thesis
    by (simp add: ilog2_def)
qed

lemma ilog2_eqI:
  assumes "pow2 e \<le> x" and "x < pow2 (e + 1)"
  shows "ilog2 x = e"
proof -
  have x: "0 < x" using assms(1) pow2_pos [of e] by linarith
  from ilog2_bounds [OF x]
  have "pow2 (ilog2 x) \<le> x" and "x < pow2 (ilog2 x + 1)" by simp_all
  with assms have "pow2 e < pow2 (ilog2 x + 1)" and "pow2 (ilog2 x) < pow2 (e + 1)"
    by linarith+
  then show ?thesis
    by (simp add: pow2_less_iff)
qed

lemma nearest_even_close: "\<bar>of_int (nearest_even q) - q\<bar> \<le> 1 / 2"
proof -
  have "of_int \<lfloor>q\<rfloor> \<le> q" "q < of_int \<lfloor>q\<rfloor> + 1"
    by linarith+
  then show ?thesis
    by (simp add: nearest_even_def Let_def)
qed

lemma nearest_even_nonneg: "0 \<le> q \<Longrightarrow> 0 \<le> nearest_even q"
  by (simp add: nearest_even_def Let_def)

lemma nearest_even_unique:
  assumes "\<bar>q - of_int m\<bar> < 1 / 2"
  shows "nearest_even q = m"
proof -
  let ?n = "\<lfloor>q\<rfloor>"
  have fl: "of_int ?n \<le> q" "q < of_int ?n + 1"
    by linarith+
  show ?thesis
  proof (cases "q - of_int ?n < 1 / 2")
    case True
    have "(of_int (?n - 1) :: rat) < of_int m" "(of_int m :: rat) < of_int (?n + 1)"
      using assms fl True by (simp_all, linarith+)
    then have "?n - 1 < m" "m < ?n + 1"
      by (simp_all only: of_int_less_iff)
    with True show ?thesis by (simp add: nearest_even_def Let_def)
  next
    case False
    have "(of_int ?n :: rat) < of_int m" "(of_int m :: rat) < of_int (?n + 2)"
      using assms fl False by (simp_all, linarith+)
    then have m: "?n < m" "m < ?n + 2"
      by (simp_all only: of_int_less_iff)
    then have eq: "m = ?n + 1" by simp
    have "1 / 2 < q - of_int ?n"
      using assms eq by (simp, linarith)
    with False eq show ?thesis by (simp add: nearest_even_def Let_def)
  qed
qed

lemma nearest_even_tie:
  assumes "q = of_int n + 1 / 2"
  shows "nearest_even q = (if even n then n else n + 1)"
proof -
  have "\<lfloor>q\<rfloor> = n"
    unfolding assms by linarith
  then show ?thesis
    by (simp add: nearest_even_def assms)
qed

lemma b64_exponent_eq:
  assumes "pow2 e \<le> \<bar>x\<bar>" and "\<bar>x\<bar> < pow2 (e + 1)" and "- 1022 \<le> e"
  shows "b64_exponent x = e"
proof -
  have "ilog2 \<bar>x\<bar> = e"
    using assms(1,2) by (rule ilog2_eqI)
  then show ?thesis
    using assms(3) by (simp add: b64_exponent_def)
qed

lemma b64_nearest_unfold:
  assumes "pow2 e \<le> \<bar>x\<bar>" and "\<bar>x\<bar> < pow2 (e + 1)" and "- 1022 \<le> e"
  shows "b64_nearest x = of_int (nearest_even (x / pow2 (e - 52))) * pow2 (e - 52)"
proof -
  have x: "x \<noteq> 0"
    using assms(1) pow2_pos [of e] by auto
  show ?thesis
    unfolding b64_nearest_def Let_def b64_exponent_eq [OF assms] using x by simp
qed

lemma b64_nearestI:
  assumes "pow2 e \<le> \<bar>x\<bar>" and "\<bar>x\<bar> < pow2 (e + 1)" and "- 1022 \<le> e"
    and "\<bar>x / pow2 (e - 52) - of_int m\<bar> < 1 / 2"
    and "y = of_int m * pow2 (e - 52)"
  shows "b64_nearest x = y"
  unfolding b64_nearest_unfold [OF assms(1-3)] nearest_even_unique [OF assms(4)]
  by (simp add: assms(5))

lemma b64_nearest_tieI:
  assumes "pow2 e \<le> \<bar>x\<bar>" and "\<bar>x\<bar> < pow2 (e + 1)" and "- 1022 \<le> e"
    and "x / pow2 (e - 52) = of_int n + 1 / 2"
    and "y = of_int (if even n then n else n + 1) * pow2 (e - 52)"
  shows "b64_nearest x = y"
  unfolding b64_nearest_unfold [OF assms(1-3)] nearest_even_tie [OF assms(4)]
  by (simp add: assms(5))

lemma b64_roundI:
  assumes "b64_nearest x = y" and "\<bar>y\<bar> < pow2 k" and "k \<le> 1024"
  shows "b64_round x = Some y"
proof -
  have "pow2 k \<le> pow2 1024"
    using assms(3) by (rule pow2_mono)
  also have "pow2 1024 = 2 ^ 1024"
    by (simp add: pow2_nonneg_exp)
  finally have "\<bar>y\<bar> < 2 ^ 1024"
    using assms(2) by linarith
  then show ?thesis
    by (simp add: b64_round_def assms(1))
qed

lemma b64_round_zero: "b64_round 0 = Some 0"
  by (simp add: b64_round_def b64_nearest_def)

subsection \<open>The error of a rounding\<close>

lemma pow2_half: "pow2 (k - 1) = pow2 k / 2"
  using pow2_add [of k "- 1"] by (simp add: pow2_def)

lemma b64_nearest_error: "\<bar>b64_nearest x - x\<bar> \<le> pow2 (b64_exponent x - 53)"
proof (cases "x = 0")
  case True
  then show ?thesis
    using pow2_pos [of "b64_exponent x - 53"] by (simp add: b64_nearest_def)
next
  case False
  let ?ulp = "pow2 (b64_exponent x - 52)"
  let ?m = "nearest_even (x / ?ulp)"
  have ulp: "0 < ?ulp" by (rule pow2_pos)
  have "b64_nearest x - x = (of_int ?m - x / ?ulp) * ?ulp"
    using False ulp by (simp add: b64_nearest_def Let_def field_simps)
  then have "\<bar>b64_nearest x - x\<bar> = \<bar>of_int ?m - x / ?ulp\<bar> * ?ulp"
    using ulp by (simp add: abs_mult)
  also have "\<dots> \<le> 1 / 2 * ?ulp"
    using nearest_even_close [of "x / ?ulp"] ulp by (intro mult_right_mono) simp_all
  also have "\<dots> = pow2 (b64_exponent x - 53)"
    using pow2_half [of "b64_exponent x - 52"] by simp
  finally show ?thesis .
qed

lemma b64_nearest_nonneg: "0 \<le> x \<Longrightarrow> 0 \<le> b64_nearest x"
  using pow2_pos [of "b64_exponent x - 52"]
  by (simp add: b64_nearest_def Let_def nearest_even_nonneg)

lemma ilog2_less:
  assumes "0 < x" and "x < pow2 K"
  shows "ilog2 x < K"
proof -
  from ilog2_bounds [OF assms(1)] assms(2) have "pow2 (ilog2 x) < pow2 K"
    by linarith
  then show ?thesis by (simp add: pow2_less_iff)
qed

lemma ilog2_ge:
  assumes "pow2 K \<le> x"
  shows "K \<le> ilog2 x"
proof -
  have x: "0 < x" using assms pow2_pos [of K] by linarith
  from ilog2_bounds [OF x] assms have "pow2 K < pow2 (ilog2 x + 1)"
    by linarith
  then show ?thesis by (simp add: pow2_less_iff)
qed

lemma b64_absolute_error:
  assumes "\<bar>x\<bar> < pow2 K" and "- 1021 \<le> K"
  shows "\<bar>b64_nearest x - x\<bar> \<le> pow2 (K - 54)"
proof (cases "x = 0")
  case True
  then show ?thesis
    using pow2_pos [of "K - 54"] by (simp add: b64_nearest_def)
next
  case False
  then have "ilog2 \<bar>x\<bar> < K"
    using assms(1) by (intro ilog2_less) simp_all
  then have "b64_exponent x - 53 \<le> K - 54"
    using assms(2) by (simp add: b64_exponent_def)
  then have "pow2 (b64_exponent x - 53) \<le> pow2 (K - 54)"
    by (rule pow2_mono)
  with b64_nearest_error [of x] show ?thesis
    by linarith
qed

lemma b64_relative_error:
  assumes "pow2 (- 1022) \<le> \<bar>x\<bar>"
  shows "\<bar>b64_nearest x - x\<bar> \<le> \<bar>x\<bar> * pow2 (- 53)"
proof -
  have x: "0 < \<bar>x\<bar>" using assms pow2_pos [of "- 1022"] by linarith
  have "- 1022 \<le> ilog2 \<bar>x\<bar>"
    using assms by (rule ilog2_ge)
  then have e: "b64_exponent x = ilog2 \<bar>x\<bar>"
    by (simp add: b64_exponent_def)
  have "pow2 (b64_exponent x - 53) = pow2 (ilog2 \<bar>x\<bar>) * pow2 (- 53)"
    unfolding e using pow2_add [of "ilog2 \<bar>x\<bar>" "- 53"] by simp
  also have "\<dots> \<le> \<bar>x\<bar> * pow2 (- 53)"
    using ilog2_bounds [OF x] pow2_pos [of "- 53"] by (intro mult_right_mono) simp_all
  finally show ?thesis
    using b64_nearest_error [of x] by linarith
qed

lemma b64_round_bounded:
  assumes "\<bar>b64_nearest x\<bar> < pow2 k" and "k \<le> 1024"
  shows "b64_round x = Some (b64_nearest x)"
  using b64_roundI [OF refl assms] .

subsection \<open>The roundings of the examples\<close>

lemma round_19_99: "b64_round (1999 / 100) = Some (5626684784446013 / 281474976710656)"
proof (rule b64_roundI [where k = "5"])
  show "b64_nearest (1999 / 100) = 5626684784446013 / 281474976710656"
    by (rule b64_nearestI [where e = "4" and m = "5626684784446013"]) (simp_all add: pow2_def)
qed (simp_all add: pow2_def)

lemma round_price_19_99: "b64_round (5626684784446013 / 281474976710656) = Some (5626684784446013 / 281474976710656)"
proof (rule b64_roundI [where k = "5"])
  show "b64_nearest (5626684784446013 / 281474976710656) = 5626684784446013 / 281474976710656"
    by (rule b64_nearestI [where e = "4" and m = "5626684784446013"]) (simp_all add: pow2_def)
qed (simp_all add: pow2_def)

lemma round_3: "b64_round 3 = Some 3"
proof (rule b64_roundI [where k = "2"])
  show "b64_nearest 3 = 3"
    by (rule b64_nearestI [where e = "1" and m = "6755399441055744"]) (simp_all add: pow2_def)
qed (simp_all add: pow2_def)

lemma round_59_97: "b64_round (16880054353338039 / 281474976710656) = Some (2110006794167255 / 35184372088832)"
proof (rule b64_roundI [where k = "6"])
  show "b64_nearest (16880054353338039 / 281474976710656) = 2110006794167255 / 35184372088832"
    by (rule b64_nearest_tieI [where e = "5" and n = "8440027176669019"]) (simp_all add: pow2_def)
qed (simp_all add: pow2_def)

lemma round_sum_59_97: "b64_round (2110006794167255 / 35184372088832) = Some (2110006794167255 / 35184372088832)"
proof (rule b64_roundI [where k = "6"])
  show "b64_nearest (2110006794167255 / 35184372088832) = 2110006794167255 / 35184372088832"
    by (rule b64_nearestI [where e = "5" and m = "8440027176669020"]) (simp_all add: pow2_def)
qed (simp_all add: pow2_def)

lemma round_5: "b64_round 5 = Some 5"
proof (rule b64_roundI [where k = "3"])
  show "b64_nearest 5 = 5"
    by (rule b64_nearestI [where e = "2" and m = "5629499534213120"]) (simp_all add: pow2_def)
qed (simp_all add: pow2_def)

lemma round_2: "b64_round 2 = Some 2"
proof (rule b64_roundI [where k = "2"])
  show "b64_nearest 2 = 2"
    by (rule b64_nearestI [where e = "1" and m = "4503599627370496"]) (simp_all add: pow2_def)
qed (simp_all add: pow2_def)

lemma round_10: "b64_round 10 = Some 10"
proof (rule b64_roundI [where k = "4"])
  show "b64_nearest 10 = 10"
    by (rule b64_nearestI [where e = "3" and m = "5629499534213120"]) (simp_all add: pow2_def)
qed (simp_all add: pow2_def)

lemma round_69_97: "b64_round (2461850515055575 / 35184372088832) = Some (2461850515055575 / 35184372088832)"
proof (rule b64_roundI [where k = "7"])
  show "b64_nearest (2461850515055575 / 35184372088832) = 2461850515055575 / 35184372088832"
    by (rule b64_nearestI [where e = "6" and m = "4923701030111150"]) (simp_all add: pow2_def)
qed (simp_all add: pow2_def)

lemma round_100: "b64_round 100 = Some 100"
proof (rule b64_roundI [where k = "7"])
  show "b64_nearest 100 = 100"
    by (rule b64_nearestI [where e = "6" and m = "7036874417766400"]) (simp_all add: pow2_def)
qed (simp_all add: pow2_def)

lemma round_1: "b64_round 1 = Some 1"
proof (rule b64_roundI [where k = "1"])
  show "b64_nearest 1 = 1"
    by (rule b64_nearestI [where e = "0" and m = "4503599627370496"]) (simp_all add: pow2_def)
qed (simp_all add: pow2_def)

lemma round_169_97: "b64_round (5980287723938775 / 35184372088832) = Some (5980287723938775 / 35184372088832)"
proof (rule b64_roundI [where k = "8"])
  show "b64_nearest (5980287723938775 / 35184372088832) = 5980287723938775 / 35184372088832"
    by (rule b64_nearestI [where e = "7" and m = "5980287723938775"]) (simp_all add: pow2_def)
qed (simp_all add: pow2_def)

lemma round_literal_169_97: "b64_round (16997 / 100) = Some (5980287723938775 / 35184372088832)"
proof (rule b64_roundI [where k = "8"])
  show "b64_nearest (16997 / 100) = 5980287723938775 / 35184372088832"
    by (rule b64_nearestI [where e = "7" and m = "5980287723938775"]) (simp_all add: pow2_def)
qed (simp_all add: pow2_def)

lemma round_0_1: "b64_round (1 / 10) = Some (3602879701896397 / 36028797018963968)"
proof (rule b64_roundI [where k = "- 3"])
  show "b64_nearest (1 / 10) = 3602879701896397 / 36028797018963968"
    by (rule b64_nearestI [where e = "- 4" and m = "7205759403792794"]) (simp_all add: pow2_def)
qed (simp_all add: pow2_def)

lemma round_0_2: "b64_round (1 / 5) = Some (3602879701896397 / 18014398509481984)"
proof (rule b64_roundI [where k = "- 2"])
  show "b64_nearest (1 / 5) = 3602879701896397 / 18014398509481984"
    by (rule b64_nearestI [where e = "- 3" and m = "7205759403792794"]) (simp_all add: pow2_def)
qed (simp_all add: pow2_def)

lemma round_price_0_1: "b64_round (3602879701896397 / 36028797018963968) = Some (3602879701896397 / 36028797018963968)"
proof (rule b64_roundI [where k = "- 3"])
  show "b64_nearest (3602879701896397 / 36028797018963968) = 3602879701896397 / 36028797018963968"
    by (rule b64_nearestI [where e = "- 4" and m = "7205759403792794"]) (simp_all add: pow2_def)
qed (simp_all add: pow2_def)

lemma round_price_0_2: "b64_round (3602879701896397 / 18014398509481984) = Some (3602879701896397 / 18014398509481984)"
proof (rule b64_roundI [where k = "- 2"])
  show "b64_nearest (3602879701896397 / 18014398509481984) = 3602879701896397 / 18014398509481984"
    by (rule b64_nearestI [where e = "- 3" and m = "7205759403792794"]) (simp_all add: pow2_def)
qed (simp_all add: pow2_def)

lemma round_0_1_plus_0_2: "b64_round (10808639105689191 / 36028797018963968) = Some (1351079888211149 / 4503599627370496)"
proof (rule b64_roundI [where k = "- 1"])
  show "b64_nearest (10808639105689191 / 36028797018963968) = 1351079888211149 / 4503599627370496"
    by (rule b64_nearest_tieI [where e = "- 2" and n = "5404319552844595"]) (simp_all add: pow2_def)
qed (simp_all add: pow2_def)

lemma round_0_3: "b64_round (3 / 10) = Some (5404319552844595 / 18014398509481984)"
proof (rule b64_roundI [where k = "- 1"])
  show "b64_nearest (3 / 10) = 5404319552844595 / 18014398509481984"
    by (rule b64_nearestI [where e = "- 2" and m = "5404319552844595"]) (simp_all add: pow2_def)
qed (simp_all add: pow2_def)

lemma round_110: "b64_round 110 = Some 110"
proof (rule b64_roundI [where k = "7"])
  show "b64_nearest 110 = 110"
    by (rule b64_nearestI [where e = "6" and m = "7740561859543040"]) (simp_all add: pow2_def)
qed (simp_all add: pow2_def)

lemmas js_defs = cart_total_def js_add_def js_mul_def js_number_def cart_line_def

lemma cart_total_drift: "cart_total drift_cart = Some (1351079888211149 / 4503599627370496)"
  by (simp add: js_defs drift_cart_def round_0_1 round_0_2 round_1 round_price_0_1
      round_price_0_2 round_0_1_plus_0_2)

lemma cart_total_spec_example:
  "cart_total spec_example_cart = Some (5980287723938775 / 35184372088832)"
  by (simp add: js_defs spec_example_cart_def round_19_99 round_3 round_59_97 round_sum_59_97
      round_5 round_2 round_10 round_69_97 round_100 round_1 round_169_97)

lemma floor_numeral_divide: "\<lfloor>numeral a / numeral b :: rat\<rfloor> = numeral a div numeral b"
  using floor_divide_of_int_eq [of "numeral a" "numeral b", where ?'a = rat] by simp

lemma digits_16997: "dec_digits 16997 = ''16997''"
  by (simp add: dec_digits.simps)

lemma to_fixed2_spec_example: "to_fixed2 (cart_total spec_example_cart) = Some ''169.97''"
  by (simp add: cart_total_spec_example to_fixed2_def digits_16997 Let_def floor_numeral_divide)

lemma exact_total_spec_example: "exact_total spec_example_cart = 16997 / 100"
  by (simp add: exact_total_def spec_example_cart_def cart_line_def)

lemma exact_steps_total:
  "exact_steps acc items \<Longrightarrow>
   foldl (\<lambda>sum item. js_add sum (js_mul (js_number (v_price item))
                                         (js_number (of_int (v_quantity item)))))
     (Some acc) items
   = Some (acc + exact_total items)"
  by (induction items arbitrary: acc)
     (simp_all add: exact_total_def js_add_def js_mul_def algebra_simps)

subsection \<open>The error of the total\<close>

lemma product_error:
  fixes p q P Q u :: rat
  assumes "0 \<le> p" and "0 \<le> q" and "0 \<le> u" and "u \<le> 1"
    and P: "\<bar>P - p\<bar> \<le> p * u" and Q: "\<bar>Q - q\<bar> \<le> q * u"
  shows "\<bar>P * Q - p * q\<bar> \<le> 3 * u * (p * q)"
proof -
  have "q * u \<le> q * 1"
    using assms(2,4) by (intro mult_left_mono) simp_all
  with Q have Q2: "\<bar>Q\<bar> \<le> 2 * q"
    by linarith
  have "P * Q - p * q = (P - p) * Q + p * (Q - q)"
    by (simp add: algebra_simps)
  then have "\<bar>P * Q - p * q\<bar> \<le> \<bar>P - p\<bar> * \<bar>Q\<bar> + p * \<bar>Q - q\<bar>"
    using abs_triangle_ineq [of "(P - p) * Q" "p * (Q - q)"] assms(1)
    by (simp add: abs_mult)
  also have "\<bar>P - p\<bar> * \<bar>Q\<bar> \<le> (p * u) * (2 * q)"
    using P Q2 assms(1-3) by (intro mult_mono) simp_all
  also have "p * \<bar>Q - q\<bar> \<le> p * (q * u)"
    using Q assms(1) by (intro mult_left_mono) simp_all
  finally show ?thesis
    by (simp add: algebra_simps)
qed

lemma relative_or_zero:
  assumes "0 \<le> x" and "x = 0 \<or> 1 / 128 \<le> x"
  shows "\<bar>b64_nearest x - x\<bar> \<le> x * (1 / 2 ^ 53)"
proof (cases "x = 0")
  case True
  then show ?thesis by (simp add: b64_nearest_def)
next
  case False
  have "pow2 (- 1022) \<le> pow2 (- 7)"
    by (rule pow2_mono) simp
  also have "pow2 (- 7) = 1 / 128"
    by (simp add: pow2_def)
  finally have "pow2 (- 1022) \<le> \<bar>x\<bar>"
    using assms False by simp
  from b64_relative_error [OF this] assms(1) show ?thesis
    by (simp add: pow2_def)
qed

lemma cents_zero_or_large:
  fixes p :: rat
  assumes "0 \<le> p" and "of_int \<lfloor>p * 100\<rfloor> = p * 100"
  shows "p = 0 \<or> 1 / 128 \<le> p"
proof (cases "p = 0")
  case True
  then show ?thesis by simp
next
  case False
  with assms(1) have "0 < p * 100" by simp
  then have "0 < (of_int \<lfloor>p * 100\<rfloor> :: rat)"
    by (simp only: assms(2))
  then have "0 < \<lfloor>p * 100\<rfloor>"
    by (simp only: of_int_0_less_iff)
  then have "1 \<le> \<lfloor>p * 100\<rfloor>" by simp
  then have "(1 :: rat) \<le> of_int \<lfloor>p * 100\<rfloor>"
    by (simp only: of_int_1_le_iff)
  then show ?thesis
    unfolding assms(2) by simp
qed

lemma int_zero_or_large:
  assumes "0 \<le> (n :: int)"
  shows "(of_int n :: rat) = 0 \<or> 1 / 128 \<le> (of_int n :: rat)"
proof (cases "n = 0")
  case True
  then show ?thesis by simp
next
  case False
  with assms have "1 \<le> n" by simp
  then have "(1 :: rat) \<le> of_int n"
    by (simp only: of_int_1_le_iff)
  then show ?thesis by simp
qed

lemma total_step:
  assumes item: "priced_in_cents item"
    and s: "0 \<le> s" and S: "0 \<le> S" and err: "\<bar>s - S\<bar> \<le> E" and E: "E \<le> 1"
    and bound: "S + v_price item * of_int (v_quantity item) < 2 ^ 30"
  shows "\<exists>s'. js_add (Some s) (js_mul (js_number (v_price item))
                                         (js_number (of_int (v_quantity item)))) = Some s' \<and>
              0 \<le> s' \<and>
              \<bar>s' - (S + v_price item * of_int (v_quantity item))\<bar> \<le> E + 1 / 2 ^ 20"
proof -
  define p where "p = v_price item"
  define q :: rat where "q = of_int (v_quantity item)"
  define P where "P = b64_nearest p"
  define Q where "Q = b64_nearest q"
  define t where "t = b64_nearest (P * Q)"
  define s' where "s' = b64_nearest (s + t)"
  have p: "0 \<le> p" "p < 1073741824" and pc: "p = 0 \<or> 1 / 128 \<le> p"
    using item cents_zero_or_large [of p] by (simp_all add: priced_in_cents_def p_def)
  have "0 \<le> v_quantity item" "v_quantity item < 1073741824"
    using item by (simp_all add: priced_in_cents_def)
  then have q: "0 \<le> q" "q < 1073741824" and qc: "q = 0 \<or> 1 / 128 \<le> q"
    using int_zero_or_large [of "v_quantity item"]
    by (simp_all add: q_def)
  have T0: "0 \<le> p * q"
    using p(1) q(1) by simp
  have T: "p * q < 1073741824" and ST: "S + p * q < 1073741824"
    using bound S by (simp_all add: p_def q_def)
  have Pe: "\<bar>P - p\<bar> \<le> p * (1 / 9007199254740992)"
    using relative_or_zero [OF p(1) pc] by (simp add: P_def)
  have Qe: "\<bar>Q - q\<bar> \<le> q * (1 / 9007199254740992)"
    using relative_or_zero [OF q(1) qc] by (simp add: Q_def)
  have P0: "0 \<le> P" and Q0: "0 \<le> Q"
    using p(1) q(1) by (simp_all add: P_def Q_def b64_nearest_nonneg)
  have "\<bar>P\<bar> < 2147483648" and "\<bar>Q\<bar> < 2147483648"
    using Pe Qe p q by linarith+
  then have Pb: "\<bar>b64_nearest p\<bar> < pow2 31" and Qb: "\<bar>b64_nearest q\<bar> < pow2 31"
    by (simp_all add: pow2_def P_def Q_def)
  have jp: "js_number p = Some P" and jq: "js_number q = Some Q"
    using b64_round_bounded [OF Pb] b64_round_bounded [OF Qb]
    by (simp_all add: js_number_def P_def Q_def)
  have PQe: "\<bar>P * Q - p * q\<bar> \<le> 3 * (1 / 9007199254740992) * (p * q)"
    using p(1) q(1) Pe Qe by (intro product_error) simp_all
  have PQ0: "0 \<le> P * Q"
    using P0 Q0 by simp
  have "\<bar>P * Q\<bar> < 2147483648"
    using PQe T T0 by linarith
  then have PQb: "\<bar>P * Q\<bar> < pow2 31"
    by (simp add: pow2_def)
  have te: "\<bar>t - P * Q\<bar> \<le> 1 / 8388608"
    using b64_absolute_error [OF PQb] by (simp add: t_def pow2_def)
  have t0: "0 \<le> t"
    using PQ0 by (simp add: t_def b64_nearest_nonneg)
  have "\<bar>t\<bar> < 4294967296"
    using te \<open>\<bar>P * Q\<bar> < 2147483648\<close> by linarith
  then have tb: "\<bar>b64_nearest (P * Q)\<bar> < pow2 32"
    by (simp add: pow2_def t_def)
  have jm: "js_mul (Some P) (Some Q) = Some t"
    using b64_round_bounded [OF tb] by (simp add: js_mul_def t_def)
  have tT: "\<bar>t - p * q\<bar> \<le> 1 / 2097152"
    using te PQe T T0 by linarith
  have "\<bar>s + t\<bar> < 2147483648"
    using s t0 err E tT ST by linarith
  then have stb: "\<bar>s + t\<bar> < pow2 31"
    by (simp add: pow2_def)
  have se: "\<bar>s' - (s + t)\<bar> \<le> 1 / 8388608"
    using b64_absolute_error [OF stb] by (simp add: s'_def pow2_def)
  have s'0: "0 \<le> s'"
    using s t0 by (simp add: s'_def b64_nearest_nonneg)
  have "\<bar>s'\<bar> < 4294967296"
    using se \<open>\<bar>s + t\<bar> < 2147483648\<close> by linarith
  then have s'b: "\<bar>b64_nearest (s + t)\<bar> < pow2 32"
    by (simp add: pow2_def s'_def)
  have ja: "js_add (Some s) (Some t) = Some s'"
    using b64_round_bounded [OF s'b] by (simp add: js_add_def s'_def)
  have final: "\<bar>s' - (S + p * q)\<bar> \<le> E + 1 / 1048576"
    using se err tT by linarith
  show ?thesis
    using ja jm jp jq s'0 final
    by (auto simp: p_def [symmetric] q_def [symmetric])
qed

lemma exact_total_Cons:
  "exact_total (item # items) = v_price item * of_int (v_quantity item) + exact_total items"
  by (simp add: exact_total_def)

lemma exact_total_nonneg:
  "\<forall>item \<in> set items. priced_in_cents item \<Longrightarrow> 0 \<le> exact_total items"
  by (induction items) (simp_all add: exact_total_Cons priced_in_cents_def exact_total_def)

lemma exact_total_cents:
  "\<forall>item \<in> set items. priced_in_cents item \<Longrightarrow>
   \<exists>n :: int. of_int n = exact_total items * 100"
proof (induction items)
  case Nil
  have "of_int 0 = exact_total [] * 100"
    by (simp add: exact_total_def)
  then show ?case by blast
next
  case (Cons item items)
  then obtain n :: int where n: "of_int n = exact_total items * 100"
    by auto
  have c: "of_int \<lfloor>v_price item * 100\<rfloor> = v_price item * 100"
    using Cons.prems by (simp add: priced_in_cents_def)
  have "of_int (\<lfloor>v_price item * 100\<rfloor> * v_quantity item + n)
      = exact_total (item # items) * 100"
    by (simp add: exact_total_Cons n c algebra_simps)
  then show ?case by blast
qed

lemma total_fold:
  assumes "\<forall>item \<in> set items. priced_in_cents item"
    and "0 \<le> s" and "0 \<le> S" and "\<bar>s - S\<bar> \<le> E"
    and "E + of_nat (length items) / 2 ^ 20 \<le> 1"
    and "S + exact_total items < 2 ^ 30"
  shows "\<exists>s'. foldl (\<lambda>sum item. js_add sum (js_mul (js_number (v_price item))
                                        (js_number (of_int (v_quantity item)))))
                 (Some s) items = Some s' \<and>
              0 \<le> s' \<and>
              \<bar>s' - (S + exact_total items)\<bar> \<le> E + of_nat (length items) / 2 ^ 20"
  using assms
proof (induction items arbitrary: s S E)
  case Nil
  then show ?case by (simp add: exact_total_def)
next
  case (Cons item items)
  let ?T = "v_price item * of_int (v_quantity item)"
  have item: "priced_in_cents item" and rest: "\<forall>item \<in> set items. priced_in_cents item"
    using Cons.prems(1) by simp_all
  have r0: "0 \<le> exact_total items"
    using rest by (rule exact_total_nonneg)
  have T0: "0 \<le> ?T"
    using item by (simp add: priced_in_cents_def)
  have E1: "E \<le> 1" and E2: "E + 1 / 2 ^ 20 + of_nat (length items) / 2 ^ 20 \<le> 1"
    using Cons.prems(5) by (simp_all add: field_simps)
  have b: "S + ?T < 2 ^ 30" and b2: "(S + ?T) + exact_total items < 2 ^ 30"
    using Cons.prems(6) r0 by (simp_all add: exact_total_Cons)
  from total_step [OF item Cons.prems(2,3,4) E1 b]
  obtain s1 where s1: "js_add (Some s) (js_mul (js_number (v_price item))
                                         (js_number (of_int (v_quantity item)))) = Some s1"
    and s10: "0 \<le> s1" and e1: "\<bar>s1 - (S + ?T)\<bar> \<le> E + 1 / 2 ^ 20"
    by blast
  have S1: "0 \<le> S + ?T"
    using Cons.prems(3) T0 by simp
  from Cons.IH [OF rest s10 S1 e1 E2 b2]
  obtain s' where "foldl (\<lambda>sum item. js_add sum (js_mul (js_number (v_price item))
                                        (js_number (of_int (v_quantity item)))))
                 (Some s1) items = Some s'"
    and "0 \<le> s'"
    and "\<bar>s' - (S + ?T + exact_total items)\<bar> \<le> E + 1 / 2 ^ 20 + of_nat (length items) / 2 ^ 20"
    by blast
  then show ?case
    by (simp add: s1 exact_total_Cons field_simps)
qed

lemma to_fixed2_close:
  assumes "0 \<le> s" and "0 \<le> S" and "of_int n = S * 100" and "\<bar>s - S\<bar> < 1 / 200"
    and "S < 2 ^ 30"
  shows "to_fixed2 (Some s) = to_fixed2 (Some S)"
proof -
  have n: "S * 100 = of_int n"
    using assms(3) by simp
  have "\<lfloor>s * 100 + 1 / 2\<rfloor> = n"
    using assms(4) n by (intro floor_unique) linarith+
  moreover have "\<lfloor>S * 100 + 1 / 2\<rfloor> = n"
    using n by (intro floor_unique) linarith+
  moreover have "S < 1073741824"
    using assms(5) by simp
  with assms(4) have "s < 1073741825"
    by linarith
  then have "\<not> 10 ^ 21 \<le> \<bar>s\<bar>" "\<not> 10 ^ 21 \<le> \<bar>S\<bar>"
    using assms(1,2,5) by simp_all
  ultimately show ?thesis
    using assms(1,2) by (simp add: to_fixed2_def Let_def)
qed

lemma shown_total_exact:
  assumes "\<forall>item \<in> set items. priced_in_cents item"
    and "length items \<le> 4096" and "exact_total items < 2 ^ 30"
  shows "\<exists>s. cart_total items = Some s \<and>
           \<bar>s - exact_total items\<bar> \<le> of_nat (length items) / 2 ^ 20 \<and>
           to_fixed2 (cart_total items) = to_fixed2 (Some (exact_total items))"
proof -
  have "(of_nat (length items) :: rat) \<le> 4096"
    using assms(2) by (metis of_nat_le_iff of_nat_numeral)
  then have len: "(of_nat (length items) :: rat) / 2 ^ 20 \<le> 1 / 256"
    by simp
  from total_fold [OF assms(1), of 0 0 0] len assms(3)
  obtain s where s: "cart_total items = Some s" and s0: "0 \<le> s"
    and e: "\<bar>s - exact_total items\<bar> \<le> of_nat (length items) / 2 ^ 20"
    by (auto simp: cart_total_def)
  from exact_total_cents [OF assms(1)] obtain n :: int where n: "of_int n = exact_total items * 100"
    by blast
  have "\<bar>s - exact_total items\<bar> < 1 / 200"
    using e len by linarith
  from to_fixed2_close [OF s0 exact_total_nonneg [OF assms(1)] n this assms(3)] s e
  show ?thesis
    by simp
qed

subsection \<open>The total\<close>

text \<open>
  Claim C7 asks that the total be the exact decimal sum of price times quantity. The
  cart page adds binary64 numbers: for two lines at 0.10 and 0.20, quantity 1 each,
  the exact sum is 0.30, and the total is neither 0.30 nor the number nearest to it,
  but the next number above (0.30000000000000004).
\<close>

theorem C7_total_drift_counterexample:
  "exact_total drift_cart = 3 / 10 \<and>
   js_number (3 / 10) = Some (5404319552844595 / 18014398509481984) \<and>
   cart_total drift_cart = Some (5404319552844596 / 18014398509481984) \<and>
   cart_total drift_cart \<noteq> Some (exact_total drift_cart) \<and>
   cart_total drift_cart \<noteq> js_number (exact_total drift_cart)"
proof -
  have e: "exact_total drift_cart = 3 / 10"
    by (simp add: exact_total_def drift_cart_def cart_line_def)
  have j: "js_number (3 / 10) = Some (5404319552844595 / 18014398509481984)"
    by (simp add: js_number_def round_0_3)
  show ?thesis
    unfolding e j cart_total_drift by simp
qed

text \<open>
  Claim C7, as the code has it. The total of the cart page is the left-to-right
  binary64 sum of the binary64 products of price and quantity, shown with two
  decimals. For a cart of at most 4096 ordinary lines whose exact sum of price times
  quantity is below \<open>2 ^ 30\<close>, the total is a finite number within one \<open>2 ^ 20\<close>th
  per line of the exact sum, and the two decimals shown are those of the exact sum.
  The number itself is the exact sum whenever no operation rounds. On the example of
  three lines at 19.99 times 3, 5.00 times 2 and 100.00 times 1, whose exact sum is
  169.97, the total is the binary64 number nearest to 169.97 and is shown as 169.97.
\<close>

theorem C7_shown_total_is_exact:
  "((\<forall>item \<in> set items. priced_in_cents item) \<and> length items \<le> 4096 \<and>
      exact_total items < 2 ^ 30 \<longrightarrow>
      (\<exists>s. cart_total items = Some s \<and>
            \<bar>s - exact_total items\<bar> \<le> of_nat (length items) / 2 ^ 20 \<and>
            to_fixed2 (cart_total items) = to_fixed2 (Some (exact_total items)))) \<and>
   (exact_steps 0 items \<longrightarrow> cart_total items = Some (exact_total items)) \<and>
   exact_total spec_example_cart = 16997 / 100 \<and>
   cart_total spec_example_cart = js_number (16997 / 100) \<and>
   to_fixed2 (cart_total spec_example_cart) = Some ''169.97''"
proof -
  have a: "exact_steps 0 items \<longrightarrow> cart_total items = Some (exact_total items)"
    using exact_steps_total [of 0 items] by (simp add: cart_total_def)
  have b: "cart_total spec_example_cart = js_number (16997 / 100)"
    by (simp add: cart_total_spec_example js_number_def round_literal_169_97)
  from a b exact_total_spec_example to_fixed2_spec_example shown_total_exact [of items]
  show ?thesis
    by blast
qed

theorem C7_shown_total_is_exact_witness:
  "list_all priced_in_cents spec_example_cart \<and>
   length spec_example_cart \<le> 4096 \<and> exact_total spec_example_cart < 2 ^ 30 \<and>
   to_fixed2 (cart_total spec_example_cart) = to_fixed2 (Some (exact_total spec_example_cart)) \<and>
   exact_steps 0 [cart_line 2 5 2, cart_line 3 100 1] \<and>
   cart_total [cart_line 2 5 2, cart_line 3 100 1] = Some 110 \<and>
   exact_total [cart_line 2 5 2, cart_line 3 100 1] = 110"
proof -
  have p: "\<forall>item \<in> set spec_example_cart. priced_in_cents item"
    by (simp add: spec_example_cart_def cart_line_def priced_in_cents_def)
  have l: "length spec_example_cart \<le> 4096"
    by (simp add: spec_example_cart_def)
  have t: "exact_total spec_example_cart < 2 ^ 30"
    by (simp add: exact_total_spec_example)
  have h: "exact_steps 0 [cart_line 2 5 2, cart_line 3 100 1]"
    by (simp add: cart_line_def js_number_def round_5 round_2 round_10 round_100 round_1
        round_110)
  have e: "exact_total [cart_line 2 5 2, cart_line 3 100 1] = 110"
    by (simp add: exact_total_def cart_line_def)
  from C7_shown_total_is_exact [of spec_example_cart] p l t
  have 1: "to_fixed2 (cart_total spec_example_cart)
      = to_fixed2 (Some (exact_total spec_example_cart))"
    by blast
  from C7_shown_total_is_exact [of "[cart_line 2 5 2, cart_line 3 100 1]"] h
  have "cart_total [cart_line 2 5 2, cart_line 3 100 1]
      = Some (exact_total [cart_line 2 5 2, cart_line 3 100 1])"
    by blast
  with p l t 1 h e show ?thesis
    by (simp add: list_all_iff)
qed

end
